theory Spec2Isabelle
  imports Complex_Main "HOL-Library.AList"
begin

section \<open>The OpenList refresh pipeline (src/lib/openlist-refresh.ts)\<close>

text \<open>
  A shallow embedding of \<^verbatim>\<open>startOpenListRefresh\<close> and \<^verbatim>\<open>performScan\<close>.
  The collaborators the file imports (configuration, key generator, database, OpenList
  client, cache, task tracker, season parser, TMDB client) are not part of the file: they
  are parameters of the model, collected in the record \<open>env\<close>, and every call to one
  with an effect (configuration, database, client, cache, task tracker, TMDB, timer) is
  appended to a log of calls. A call that rejects or throws, and a \<^verbatim>\<open>throw\<close> of the
  file, is the left injection of a sum. Calls to \<^verbatim>\<open>console\<close> are left out.
\<close>

subsection \<open>Data\<close>

text \<open>
  The three \<^verbatim>\<open>throw new Error(...)\<close> of the file, in source order, and an exception
  thrown by a collaborator or by the runtime (with its message). \<^verbatim>\<open>failScanTask\<close> receives the message
  of the exception; the model passes the exception itself.
\<close>

datatype exn =
    OpenListNotConfigured
  | TMDBApiKeyNotConfigured
  | ListFetchFailed
  | Thrown string

text \<open>An item of a listing page, and the response of \<^verbatim>\<open>client.listDirectory\<close>.\<close>

record RemoteItem =
  item_name :: string
  is_dir :: bool

record ListData =
  total :: int
  content :: "RemoteItem list"

record ListResponse =
  code :: int
  data :: ListData

text \<open>The result of \<^verbatim>\<open>parseSeasonFromTitle\<close>.\<close>

record SeasonInfo =
  cleanTitle :: string
  seasonNumber :: "int option"
  year :: "int option"

text \<open>
  The responses of \<^verbatim>\<open>searchTMDB\<close> and \<^verbatim>\<open>getTVSeasonDetails\<close>. Fields are prefixed
  (\<open>r_\<close> for the search result, \<open>s_\<close> for the season) to keep them apart from the fields
  of \<open>FolderInfo\<close>. A field that may be missing or null is an option.
\<close>

record TMDBResult =
  r_id :: int
  r_title :: "string option"
  r_name :: "string option"
  r_poster_path :: "string option"
  r_release_date :: "string option"
  r_first_air_date :: "string option"
  r_overview :: string
  r_vote_average :: real
  r_media_type :: string

record SearchResponse =
  search_code :: int
  result :: "TMDBResult option"

record Season =
  s_season_number :: int
  s_name :: string
  s_poster_path :: "string option"
  s_overview :: "string option"
  s_air_date :: "string option"

record SeasonResponse =
  season_code :: int
  season :: "Season option"

text \<open>An entry of the index, and the index. The object \<^verbatim>\<open>metaInfo.folders\<close> is an
  association list from folder key to entry.\<close>

record FolderInfo =
  folderName :: string
  tmdb_id :: int
  title :: string
  poster_path :: "string option"
  release_date :: string
  overview :: string
  vote_average :: real
  media_type :: string
  last_updated :: int
  failed :: bool
  season_number :: "int option"
  season_name :: "string option"

record MetaInfo =
  folders :: "(string \<times> FolderInfo) list"
  last_refresh :: int

text \<open>
  What \<^verbatim>\<open>JSON.parse\<close> gives for the stored text. The file types it as \<open>MetaInfo\<close>,
  but the text decides what it is. \<open>NotAnIndex\<close> is a value whose \<^verbatim>\<open>folders\<close> cannot
  be enumerated (the value is null, or \<^verbatim>\<open>folders\<close> is missing or null, as for the text
  \<^verbatim>\<open>{}\<close>); otherwise the value has its folders, where an entry may be null, and its
  time of refresh. The entries that are not null are typed as the file types them.
\<close>

datatype parsed =
    NotAnIndex
  | ParsedIndex "(string \<times> FolderInfo option) list" int

text \<open>The configuration as far as the file reads and writes it.\<close>

record OpenListConfig =
  Enabled :: bool
  URL :: string
  Username :: string
  Password :: string
  RootPath :: string
  LastRefreshTime :: "int option"
  ResourceCount :: "nat option"

record SiteConfig =
  TMDBApiKey :: "string option"
  TMDBProxy :: "string option"

record AdminConfig =
  OpenListConfig :: "OpenListConfig option"
  SiteConfig :: SiteConfig

text \<open>\<^verbatim>\<open>new OpenListClient(url, username, password)\<close>.\<close>

record OpenListClient =
  url :: string
  username :: string
  password :: string

text \<open>The counts passed to \<^verbatim>\<open>completeScanTask\<close>: total, new, existing, errors.\<close>

record ScanResult =
  res_total :: nat
  res_new :: nat
  res_existing :: nat
  res_errors :: nat

text \<open>A call to a collaborator, with its arguments (and for \<open>CreateScanTask\<close> the
  identifier it returned).\<close>

datatype event =
    GetConfig
  | CleanupOldTasks
  | CreateScanTask string
  | UpdateScanTaskProgress string nat nat "string option"
  | CompleteScanTask string ScanResult
  | FailScanTask string exn
  | GetGlobalValue string
  | SetGlobalValue string string
  | InvalidateMetaInfoCache string
  | SetCachedMetaInfo string MetaInfo
  | ListDirectory OpenListClient string nat nat bool
  | SearchTMDB string string "string option" "int option"
  | GetTVSeasonDetails string int int "string option"
  | SetTimeout nat
  | SaveAdminConfig AdminConfig

text \<open>
  The collaborators. A call that may reject returns a sum, with the message of the
  exception on the left. \<open>Date_now\<close> is indexed by the
  number of calls logged so far, so that the clock may advance. \<open>db_get_rejects\<close> and
  \<open>db_set_rejects\<close> say whether a read or a write of the database rejects; a write that
  rejects leaves the store as it was.
\<close>

record env =
  getConfig :: "string + AdminConfig"
  createScanTask :: "nat \<Rightarrow> string"
  generateFolderKey :: "string \<Rightarrow> string list \<Rightarrow> string"
  parseSeasonFromTitle :: "string \<Rightarrow> string + SeasonInfo"
  searchTMDB :: "string \<Rightarrow> string \<Rightarrow> string option \<Rightarrow> int option \<Rightarrow> string + SearchResponse"
  getTVSeasonDetails :: "string \<Rightarrow> int \<Rightarrow> int \<Rightarrow> string option \<Rightarrow> string + SeasonResponse"
  listDirectory :: "OpenListClient \<Rightarrow> string \<Rightarrow> nat \<Rightarrow> nat \<Rightarrow> bool \<Rightarrow> string + ListResponse"
  Date_now :: "nat \<Rightarrow> int"
  JSON_parse :: "string \<Rightarrow> string + parsed"
  JSON_stringify :: "MetaInfo \<Rightarrow> string"
  db_get_rejects :: "string \<Rightarrow> string option"
  db_set_rejects :: "string \<Rightarrow> string \<Rightarrow> string option"
  db_saveAdminConfig :: "AdminConfig \<Rightarrow> string option"

text \<open>
  Modelled from the spec: the Metadata Store behind \<^verbatim>\<open>db.getGlobalValue\<close> and
  \<^verbatim>\<open>db.setGlobalValue\<close> (\<^verbatim>\<open>getGlobalValue(key)\<close> gives a string or null,
  \<^verbatim>\<open>setGlobalValue(key, value)\<close> stores one), a mapping from key to text. The world
  is the store, the Progress Cache and the log of calls.
\<close>

record world =
  store :: "string \<rightharpoonup> string"
  cache :: "string \<rightharpoonup> MetaInfo"
  calls :: "event list"

subsection \<open>JavaScript truthiness\<close>

text \<open>\<^verbatim>\<open>a || b\<close> on strings: a missing, null or empty \<open>a\<close> gives \<open>b\<close>.\<close>

definition truthy :: "string option \<Rightarrow> bool" where
  "truthy a = (case a of None \<Rightarrow> False | Some v \<Rightarrow> v \<noteq> [])"

definition or_else :: "string option \<Rightarrow> string \<Rightarrow> string" where
  "or_else a b = (case a of None \<Rightarrow> b | Some v \<Rightarrow> if v = [] then b else v)"

text \<open>A number is truthy when it is present and not zero.\<close>

definition truthy_num :: "int option \<Rightarrow> bool" where
  "truthy_num a = (case a of None \<Rightarrow> False | Some n \<Rightarrow> n \<noteq> 0)"

subsection \<open>Small steps on the world\<close>

definition logCall :: "event \<Rightarrow> world \<Rightarrow> world" where
  "logCall e w = w\<lparr>calls := calls w @ [e]\<rparr>"

text \<open>The fixed global key of the index.\<close>

definition metainfoKey :: string where
  "metainfoKey = ''video.metainfo''"

text \<open>
  Modelled from the spec: \<^verbatim>\<open>invalidateMetaInfoCache\<close> and \<^verbatim>\<open>setCachedMetaInfo\<close> of
  the Progress Cache (\<^verbatim>\<open>invalidate(root)\<close>, \<^verbatim>\<open>set(root, metaInfo)\<close>): a mapping from
  root path to the last index, whose entry is removed by the first and set by the second.
\<close>

definition invalidateMetaInfoCache :: "string \<Rightarrow> world \<Rightarrow> world" where
  "invalidateMetaInfoCache rootPath w =
     logCall (InvalidateMetaInfoCache rootPath) (w\<lparr>cache := (cache w)(rootPath := None)\<rparr>)"

definition setCachedMetaInfo :: "string \<Rightarrow> MetaInfo \<Rightarrow> world \<Rightarrow> world" where
  "setCachedMetaInfo rootPath m w =
     logCall (SetCachedMetaInfo rootPath m) (w\<lparr>cache := (cache w)(rootPath \<mapsto> m)\<rparr>)"

text \<open>\<^verbatim>\<open>failScanTask(taskId, error.message); throw error\<close>: the outer catch.\<close>

definition failScan :: "string \<Rightarrow> exn \<Rightarrow> world \<Rightarrow> (exn + unit) \<times> world" where
  "failScan taskId e w = (Inl e, logCall (FailScanTask taskId e) w)"

subsection \<open>Loading the index (lines 85 to 110)\<close>

text \<open>A failing read and a text that does not parse both give the empty index. A text
  that parses gives whatever it holds.\<close>

definition emptyMetaInfo :: "int \<Rightarrow> MetaInfo" where
  "emptyMetaInfo now = \<lparr>folders = [], last_refresh = now\<rparr>"

text \<open>An index as a parsed value.\<close>

definition wellFormed :: "MetaInfo \<Rightarrow> parsed" where
  "wellFormed m = ParsedIndex (map (\<lambda>(key, info). (key, Some info)) (folders m)) (last_refresh m)"

definition loadMetaInfo :: "env \<Rightarrow> bool \<Rightarrow> world \<Rightarrow> parsed \<times> world" where
  "loadMetaInfo env clearMetaInfo w =
     (if clearMetaInfo then (wellFormed (emptyMetaInfo (Date_now env (length (calls w)))), w)
      else
        let w1 = logCall (GetGlobalValue metainfoKey) w;
            fresh = wellFormed (emptyMetaInfo (Date_now env (length (calls w1))))
        in case db_get_rejects env metainfoKey of
             Some e \<Rightarrow> (fresh, w1)
           | None \<Rightarrow>
               (case store w metainfoKey of
                  None \<Rightarrow> (fresh, w1)
                | Some metainfoContent \<Rightarrow>
                    if metainfoContent = [] then (fresh, w1)
                    else (case JSON_parse env metainfoContent of
                            Inl e \<Rightarrow> (fresh, w1)
                          | Inr v \<Rightarrow> (v, w1))))"

subsection \<open>The listing loop (lines 114 to 135)\<close>

text \<open>
  \<^verbatim>\<open>while (true)\<close> has no bound of its own: the loop takes fuel, one unit for each
  page, and \<open>None\<close> says that the fuel ran out before the loop left. Otherwise the result
  is the log of calls, with the exception thrown or the accumulated directories.
\<close>

fun listLoop ::
  "nat \<Rightarrow> env \<Rightarrow> OpenListClient \<Rightarrow> string \<Rightarrow> event list \<Rightarrow> RemoteItem list \<Rightarrow> nat
     \<Rightarrow> (event list \<times> (exn + RemoteItem list)) option" where
  "listLoop 0 env client rootPath cs acc currentPage = None"
| "listLoop (Suc fuel) env client rootPath cs acc currentPage =
     (let cs1 = cs @ [ListDirectory client rootPath currentPage 100 True]
      in case listDirectory env client rootPath currentPage 100 True of
           Inl msg \<Rightarrow> Some (cs1, Inl (Thrown msg))
         | Inr listResponse \<Rightarrow>
             if code listResponse \<noteq> 200 then Some (cs1, Inl ListFetchFailed)
             else
               let pageFolders = filter is_dir (content (data listResponse));
                   acc1 = acc @ pageFolders
               in if int (length acc1) \<ge> total (data listResponse) then Some (cs1, Inr acc1)
                  else listLoop fuel env client rootPath cs1 acc1 (currentPage + 1))"

subsection \<open>Resolving one folder (lines 150 to 264)\<close>

text \<open>The state of the \<^verbatim>\<open>for\<close> loop: the index, the set of keys, the three counters
  and the log of calls.\<close>

record scan_state =
  metaInfo :: MetaInfo
  existingKeys :: "string list"
  newCount :: nat
  existingCount :: nat
  errorCount :: nat
  lcalls :: "event list"

text \<open>The entry of lines 232 to 243 and of lines 250 to 261.\<close>

definition placeholder :: "string \<Rightarrow> int \<Rightarrow> FolderInfo" where
  "placeholder nm now =
     \<lparr>folderName = nm, tmdb_id = 0, title = nm, poster_path = None, release_date = [],
      overview = [], vote_average = 0, media_type = ''movie'', last_updated = now,
      failed = True, season_number = None, season_name = None\<rparr>"

text \<open>The entry of lines 180 to 191.\<close>

definition matchedFolderInfo :: "string \<Rightarrow> TMDBResult \<Rightarrow> int \<Rightarrow> FolderInfo" where
  "matchedFolderInfo nm r now =
     \<lparr>folderName = nm, tmdb_id = r_id r,
      title = or_else (r_title r) (or_else (r_name r) nm),
      poster_path = r_poster_path r,
      release_date = or_else (r_release_date r) (or_else (r_first_air_date r) []),
      overview = r_overview r, vote_average = r_vote_average r,
      media_type = r_media_type r, last_updated = now,
      failed = False, season_number = None, season_name = None\<rparr>"

text \<open>Lines 203 to 218: the season found.\<close>

definition applySeason :: "Season \<Rightarrow> FolderInfo \<Rightarrow> FolderInfo" where
  "applySeason s folderInfo =
     (let f1 = folderInfo\<lparr>season_number := Some (s_season_number s),
                            season_name := Some (s_name s)\<rparr>;
          f2 = (if s_season_number s > 1
                then f1\<lparr>title := title f1 @ '' '' @ s_name s\<rparr> else f1);
          f3 = (if truthy (s_poster_path s)
                then f2\<lparr>poster_path := s_poster_path s\<rparr> else f2);
          f4 = (if truthy (s_overview s)
                then f3\<lparr>overview := the (s_overview s)\<rparr> else f3)
      in if truthy (s_air_date s)
         then f4\<lparr>release_date := the (s_air_date s)\<rparr> else f4)"

text \<open>Lines 193 to 227: the season lookup, with its own try and catch.\<close>

definition resolveSeason ::
  "env \<Rightarrow> string \<Rightarrow> string option \<Rightarrow> TMDBResult \<Rightarrow> SeasonInfo \<Rightarrow> FolderInfo \<Rightarrow> event list
     \<Rightarrow> FolderInfo \<times> event list" where
  "resolveSeason env tmdbApiKey tmdbProxy r seasonInfo folderInfo cs =
     (if r_media_type r = ''tv'' \<and> truthy_num (seasonNumber seasonInfo)
      then
        let sn = the (seasonNumber seasonInfo);
            cs1 = cs @ [GetTVSeasonDetails tmdbApiKey (r_id r) sn tmdbProxy]
        in case getTVSeasonDetails env tmdbApiKey (r_id r) sn tmdbProxy of
             Inl e \<Rightarrow> (folderInfo\<lparr>season_number := Some sn\<rparr>, cs1)
           | Inr seasonDetails \<Rightarrow>
               (case season seasonDetails of
                  Some s \<Rightarrow>
                    if season_code seasonDetails = 200 then (applySeason s folderInfo, cs1)
                    else (folderInfo\<lparr>season_number := Some sn\<rparr>, cs1)
                | None \<Rightarrow> (folderInfo\<lparr>season_number := Some sn\<rparr>, cs1))
      else (folderInfo, cs))"

text \<open>
  Lines 164 to 247, the body of the try: an exception, or the entry to store together
  with whether it is a match (\<open>True\<close>: \<^verbatim>\<open>newCount++\<close>) or a placeholder (\<open>False\<close>:
  \<^verbatim>\<open>errorCount++\<close>). The log of calls is kept in both cases.
\<close>

definition tryResolve ::
  "env \<Rightarrow> string \<Rightarrow> string option \<Rightarrow> string \<Rightarrow> event list
     \<Rightarrow> (exn + FolderInfo \<times> bool) \<times> event list" where
  "tryResolve env tmdbApiKey tmdbProxy nm cs =
     (case parseSeasonFromTitle env nm of
        Inl msg \<Rightarrow> (Inl (Thrown msg), cs)
      | Inr seasonInfo \<Rightarrow>
          let searchQuery = (if cleanTitle seasonInfo = [] then nm else cleanTitle seasonInfo);
              yr = (if truthy_num (year seasonInfo) then year seasonInfo else None);
              cs1 = cs @ [SearchTMDB tmdbApiKey searchQuery tmdbProxy yr]
          in case searchTMDB env tmdbApiKey searchQuery tmdbProxy yr of
               Inl msg \<Rightarrow> (Inl (Thrown msg), cs1)
             | Inr searchResult \<Rightarrow>
                 (case (if search_code searchResult = 200 then result searchResult else None) of
                    Some r \<Rightarrow>
                      let folderInfo = matchedFolderInfo nm r (Date_now env (length cs1));
                          (folderInfo1, cs2) =
                            resolveSeason env tmdbApiKey tmdbProxy r seasonInfo folderInfo cs1
                      in (Inr (folderInfo1, True), cs2 @ [SetTimeout 300])
                  | None \<Rightarrow>
                      (Inr (placeholder nm (Date_now env (length cs1)), False),
                       cs1 @ [SetTimeout 300])))"

text \<open>\<^verbatim>\<open>folderNameToKey.has(name)\<close>, for the map built in lines 145 to 148.\<close>

definition folderNameToKey :: "MetaInfo \<Rightarrow> (string \<times> string) list" where
  "folderNameToKey m = map (\<lambda>(key, info). (folderName info, key)) (folders m)"

definition has :: "(string \<times> string) list \<Rightarrow> string \<Rightarrow> bool" where
  "has nameToKey nm = (nm \<in> set (map fst nameToKey))"

text \<open>\<^verbatim>\<open>metaInfo.folders[folderKey] = folderInfo\<close>.\<close>

definition setFolder :: "string \<Rightarrow> FolderInfo \<Rightarrow> MetaInfo \<Rightarrow> MetaInfo" where
  "setFolder folderKey folderInfo m = m\<lparr>folders := AList.update folderKey folderInfo (folders m)\<rparr>"

text \<open>\<^verbatim>\<open>existingKeys.add(folderKey)\<close>: a set keeps the order of insertion.\<close>

definition addKey :: "string \<Rightarrow> string list \<Rightarrow> string list" where
  "addKey folderKey ks = (if folderKey \<in> set ks then ks else ks @ [folderKey])"

text \<open>One iteration of the \<^verbatim>\<open>for\<close> loop, for the folder at index \<open>i\<close> of \<open>n\<close>.\<close>

definition processFolder ::
  "env \<Rightarrow> string \<Rightarrow> string \<Rightarrow> string option \<Rightarrow> bool \<Rightarrow> (string \<times> string) list \<Rightarrow> nat
     \<Rightarrow> nat \<Rightarrow> RemoteItem \<Rightarrow> scan_state \<Rightarrow> scan_state" where
  "processFolder env taskId tmdbApiKey tmdbProxy clearMetaInfo nameToKey n i folder st =
     (let nm = item_name folder;
          st1 = st\<lparr>lcalls := lcalls st @ [UpdateScanTaskProgress taskId (i + 1) n (Some nm)]\<rparr>
      in if \<not> clearMetaInfo \<and> has nameToKey nm
         then st1\<lparr>existingCount := existingCount st1 + 1\<rparr>
         else
           let folderKey = generateFolderKey env nm (existingKeys st1);
               st2 = st1\<lparr>existingKeys := addKey folderKey (existingKeys st1)\<rparr>
           in case tryResolve env tmdbApiKey tmdbProxy nm (lcalls st2) of
                (Inr (folderInfo, True), cs) \<Rightarrow>
                  st2\<lparr>metaInfo := setFolder folderKey folderInfo (metaInfo st2),
                      newCount := newCount st2 + 1, lcalls := cs\<rparr>
              | (Inr (folderInfo, False), cs) \<Rightarrow>
                  st2\<lparr>metaInfo := setFolder folderKey folderInfo (metaInfo st2),
                      errorCount := errorCount st2 + 1, lcalls := cs\<rparr>
              | (Inl e, cs) \<Rightarrow>
                  st2\<lparr>metaInfo :=
                        setFolder folderKey (placeholder nm (Date_now env (length cs)))
                          (metaInfo st2),
                      errorCount := errorCount st2 + 1, lcalls := cs\<rparr>)"

fun scanLoop ::
  "env \<Rightarrow> string \<Rightarrow> string \<Rightarrow> string option \<Rightarrow> bool \<Rightarrow> (string \<times> string) list \<Rightarrow> nat
     \<Rightarrow> nat \<Rightarrow> RemoteItem list \<Rightarrow> scan_state \<Rightarrow> scan_state" where
  "scanLoop env taskId tmdbApiKey tmdbProxy clearMetaInfo nameToKey n i [] st = st"
| "scanLoop env taskId tmdbApiKey tmdbProxy clearMetaInfo nameToKey n i (folder # rest) st =
     scanLoop env taskId tmdbApiKey tmdbProxy clearMetaInfo nameToKey n (i + 1) rest
       (processFolder env taskId tmdbApiKey tmdbProxy clearMetaInfo nameToKey n i folder st)"

subsection \<open>Persisting (lines 266 to 284)\<close>

definition persist ::
  "env \<Rightarrow> string \<Rightarrow> string \<Rightarrow> nat \<Rightarrow> scan_state \<Rightarrow> world \<Rightarrow> (exn + unit) \<times> world" where
  "persist env taskId rootPath n st w =
     (let m = (metaInfo st)\<lparr>last_refresh := Date_now env (length (calls w))\<rparr>;
          metainfoContent = JSON_stringify env m;
          w1 = logCall (SetGlobalValue metainfoKey metainfoContent) w
      in case db_set_rejects env metainfoKey metainfoContent of
           Some msg \<Rightarrow> failScan taskId (Thrown msg) w1
         | None \<Rightarrow>
             let w2 = w1\<lparr>store := (store w1)(metainfoKey \<mapsto> metainfoContent)\<rparr>;
                 w3 = invalidateMetaInfoCache rootPath w2;
                 w4 = setCachedMetaInfo rootPath m w3;
                 w5 = logCall GetConfig w4
             in case getConfig env of
                  Inl msg \<Rightarrow> failScan taskId (Thrown msg) w5
                | Inr config \<Rightarrow>
                    (case OpenListConfig config of
                       None \<Rightarrow> failScan taskId (Thrown ''TypeError'') w5
                     | Some openListConfig \<Rightarrow>
                         let config1 = config\<lparr>OpenListConfig := Some (openListConfig
                               \<lparr>LastRefreshTime := Some (Date_now env (length (calls w5))),
                                ResourceCount := Some (length (remdups (map fst (folders m))))\<rparr>)\<rparr>;
                             w6 = logCall (SaveAdminConfig config1) w5
                         in case db_saveAdminConfig env config1 of
                              Some msg \<Rightarrow> failScan taskId (Thrown msg) w6
                            | None \<Rightarrow>
                                (Inr (),
                                 logCall (CompleteScanTask taskId
                                   \<lparr>res_total = n, res_new = newCount st,
                                    res_existing = existingCount st,
                                    res_errors = errorCount st\<rparr>) w6)))"

subsection \<open>performScan (lines 70 to 290)\<close>

text \<open>
  Lines 139 to 148 enumerate the folders of the loaded value and read the
  \<^verbatim>\<open>folderName\<close> of every entry: a value whose folders cannot be enumerated, or that
  has a null entry, makes them throw a \<^verbatim>\<open>TypeError\<close>. Otherwise the value is an index.
\<close>

definition indexOf :: "parsed \<Rightarrow> exn + MetaInfo" where
  "indexOf v =
     (case v of
        NotAnIndex \<Rightarrow> Inl (Thrown ''TypeError'')
      | ParsedIndex entries refreshed \<Rightarrow>
          if None \<in> snd ` set entries then Inl (Thrown ''TypeError'')
          else Inr \<lparr>folders = map (\<lambda>(key, info). (key, the info)) entries,
                    last_refresh = refreshed\<rparr>)"

text \<open>The state in which the \<^verbatim>\<open>for\<close> loop starts (lines 139 to 143).\<close>

definition initialScanState :: "MetaInfo \<Rightarrow> event list \<Rightarrow> scan_state" where
  "initialScanState m cs =
     \<lparr>metaInfo = m, existingKeys = map fst (folders m), newCount = 0, existingCount = 0,
      errorCount = 0, lcalls = cs\<rparr>"

text \<open>
  The result is \<open>None\<close> when the listing loop does not leave within the fuel; otherwise
  \<open>Inl e\<close> for the exception the promise rejects with, or \<open>Inr ()\<close>, and the world.
\<close>

definition performScan ::
  "env \<Rightarrow> nat \<Rightarrow> string \<Rightarrow> string \<Rightarrow> string \<Rightarrow> string \<Rightarrow> string option \<Rightarrow> string \<Rightarrow> string
     \<Rightarrow> bool \<Rightarrow> world \<Rightarrow> ((exn + unit) \<times> world) option" where
  "performScan env fuel taskId url1 rootPath tmdbApiKey tmdbProxy username1 password1
       clearMetaInfo w =
     (let client = \<lparr>url = url1, username = username1, password = password1\<rparr>;
          w0 = logCall (UpdateScanTaskProgress taskId 0 0 None) w;
          (v, w1) = loadMetaInfo env clearMetaInfo w0;
          w2 = invalidateMetaInfoCache rootPath w1
      in case listLoop fuel env client rootPath (calls w2) [] 1 of
           None \<Rightarrow> None
         | Some (cs, Inl e) \<Rightarrow> Some (failScan taskId e (w2\<lparr>calls := cs\<rparr>))
         | Some (cs, Inr fs) \<Rightarrow>
             let cs1 = cs @ [UpdateScanTaskProgress taskId 0 (length fs) None]
             in case indexOf v of
                  Inl e \<Rightarrow> Some (failScan taskId e (w2\<lparr>calls := cs1\<rparr>))
                | Inr m \<Rightarrow>
                    let st = scanLoop env taskId tmdbApiKey tmdbProxy clearMetaInfo
                               (folderNameToKey m) (length fs) 0 fs (initialScanState m cs1)
                    in Some (persist env taskId rootPath (length fs) st
                               (w2\<lparr>calls := lcalls st\<rparr>)))"

subsection \<open>startOpenListRefresh (lines 26 to 65)\<close>

text \<open>
  The first component is what the caller receives: the exception thrown, or the task
  identifier. The scan runs in the background: the second component is the world once
  the scan has settled (with the handler of line 59 run when it rejects), or \<open>None\<close>
  when it does not settle within the fuel. When the call throws, no scan runs and the
  second component is the world at the throw.
\<close>

definition startOpenListRefresh ::
  "env \<Rightarrow> nat \<Rightarrow> bool \<Rightarrow> world \<Rightarrow> (exn + string) \<times> world option" where
  "startOpenListRefresh env fuel clearMetaInfo w =
     (let w1 = logCall GetConfig w
      in case getConfig env of
           Inl msg \<Rightarrow> (Inl (Thrown msg), Some w1)
         | Inr config \<Rightarrow>
             (case OpenListConfig config of
                None \<Rightarrow> (Inl OpenListNotConfigured, Some w1)
              | Some openListConfig \<Rightarrow>
                  if \<not> Enabled openListConfig \<or> URL openListConfig = [] \<or>
                     Username openListConfig = [] \<or> Password openListConfig = []
                  then (Inl OpenListNotConfigured, Some w1)
                  else
                    (case TMDBApiKey (SiteConfig config) of
                       None \<Rightarrow> (Inl TMDBApiKeyNotConfigured, Some w1)
                     | Some tmdbApiKey \<Rightarrow>
                         if tmdbApiKey = [] then (Inl TMDBApiKeyNotConfigured, Some w1)
                         else
                           let w2 = logCall CleanupOldTasks w1;
                               taskId = createScanTask env (length (calls w2));
                               w3 = logCall (CreateScanTask taskId) w2
                           in (Inr taskId,
                               case performScan env fuel taskId (URL openListConfig)
                                      (if RootPath openListConfig = [] then ''/''
                                       else RootPath openListConfig)
                                      tmdbApiKey (TMDBProxy (SiteConfig config))
                                      (Username openListConfig) (Password openListConfig)
                                      clearMetaInfo w3 of
                                 None \<Rightarrow> None
                               | Some (Inl e, w4) \<Rightarrow> Some (logCall (FailScanTask taskId e) w4)
                               | Some (Inr u, w4) \<Rightarrow> Some w4))))"

subsection \<open>Reading the log of calls\<close>

text \<open>The calls made between two worlds.\<close>

definition newCalls :: "world \<Rightarrow> world \<Rightarrow> event list" where
  "newCalls w w1 = drop (length (calls w)) (calls w1)"

fun isListDirectory :: "event \<Rightarrow> bool" where
  "isListDirectory (ListDirectory client path page per_page refresh) = True"
| "isListDirectory e = False"

fun isSetGlobalValue :: "event \<Rightarrow> bool" where
  "isSetGlobalValue (SetGlobalValue k v) = True"
| "isSetGlobalValue e = False"

fun isSetCachedMetaInfo :: "event \<Rightarrow> bool" where
  "isSetCachedMetaInfo (SetCachedMetaInfo rootPath m) = True"
| "isSetCachedMetaInfo e = False"

fun isProgress :: "event \<Rightarrow> bool" where
  "isProgress (UpdateScanTaskProgress taskId current tot item) = True"
| "isProgress e = False"

text \<open>The calls that resolve a folder: the search, the season lookup and the delay.\<close>

fun isResolving :: "event \<Rightarrow> bool" where
  "isResolving (SearchTMDB k q p y) = True"
| "isResolving (GetTVSeasonDetails k i sn p) = True"
| "isResolving (SetTimeout ms) = True"
| "isResolving e = False"

text \<open>The calls of the \<^verbatim>\<open>for\<close> loop: progress reports and resolving calls.\<close>

definition isScanCall :: "event \<Rightarrow> bool" where
  "isScanCall e = (isProgress e \<or> isResolving e)"

text \<open>The calls that resolve the folder named \<open>nm\<close>: those of the body of the try.\<close>

definition resolvingCalls :: "env \<Rightarrow> string \<Rightarrow> string option \<Rightarrow> string \<Rightarrow> event list" where
  "resolvingCalls env tmdbApiKey tmdbProxy nm = snd (tryResolve env tmdbApiKey tmdbProxy nm [])"

text \<open>What lines 139 to 148 make of the value that the scan of the world \<open>w\<close> loads.\<close>

definition loadedIndex :: "env \<Rightarrow> string \<Rightarrow> bool \<Rightarrow> world \<Rightarrow> exn + MetaInfo" where
  "loadedIndex env taskId clearMetaInfo w =
     indexOf (fst (loadMetaInfo env clearMetaInfo
                     (logCall (UpdateScanTaskProgress taskId 0 0 None) w)))"

text \<open>The directories of the pages \<open>p\<close>, ..., \<open>p + k - 1\<close> of a listing.\<close>

definition pageDirs :: "env \<Rightarrow> OpenListClient \<Rightarrow> string \<Rightarrow> nat \<Rightarrow> RemoteItem list" where
  "pageDirs env client rootPath q =
     (case listDirectory env client rootPath q 100 True of
        Inl e \<Rightarrow> []
      | Inr listResponse \<Rightarrow> filter is_dir (content (data listResponse)))"

definition dirsOfPages :: "env \<Rightarrow> OpenListClient \<Rightarrow> string \<Rightarrow> nat \<Rightarrow> nat \<Rightarrow> RemoteItem list" where
  "dirsOfPages env client rootPath p k = concat (map (pageDirs env client rootPath) [p..<p + k])"

text \<open>Page \<open>j\<close> answers with code 200 and does not end the listing: the directories of
  the pages 1 to \<open>j\<close> are fewer than the total it reports.\<close>

definition pageContinues :: "env \<Rightarrow> OpenListClient \<Rightarrow> string \<Rightarrow> nat \<Rightarrow> bool" where
  "pageContinues env client rootPath j =
     (case listDirectory env client rootPath j 100 True of
        Inl msg \<Rightarrow> False
      | Inr listResponse \<Rightarrow>
          code listResponse = 200 \<and>
          int (length (dirsOfPages env client rootPath 1 j)) < total (data listResponse))"

text \<open>
  A resolution fails when the parser or the search throws, or the search does not answer
  with code 200 and a result (the conditions of lines 164 to 177 and 248).
\<close>

definition resolutionFails :: "env \<Rightarrow> string \<Rightarrow> string option \<Rightarrow> string \<Rightarrow> bool" where
  "resolutionFails env tmdbApiKey tmdbProxy nm =
     (case parseSeasonFromTitle env nm of
        Inl msg \<Rightarrow> True
      | Inr seasonInfo \<Rightarrow>
          (case searchTMDB env tmdbApiKey
                  (if cleanTitle seasonInfo = [] then nm else cleanTitle seasonInfo) tmdbProxy
                  (if truthy_num (year seasonInfo) then year seasonInfo else None) of
             Inl msg \<Rightarrow> True
           | Inr searchResult \<Rightarrow>
               search_code searchResult \<noteq> 200 \<or> result searchResult = None))"

text \<open>The calls of \<^verbatim>\<open>performScan\<close> before the listing (lines 82, 94 and 112).\<close>

definition prelude :: "string \<Rightarrow> string \<Rightarrow> bool \<Rightarrow> event list" where
  "prelude taskId rootPath clearMetaInfo =
     UpdateScanTaskProgress taskId 0 0 None #
     (if clearMetaInfo then [] else [GetGlobalValue metainfoKey]) @
     [InvalidateMetaInfoCache rootPath]"

subsection \<open>A sample environment\<close>

text \<open>
  A lister over a fixed list of items: it reports their number as the total and serves
  them in pages, each item on exactly one page.
\<close>

definition pagedLister ::
  "RemoteItem list \<Rightarrow> OpenListClient \<Rightarrow> string \<Rightarrow> nat \<Rightarrow> nat \<Rightarrow> bool \<Rightarrow> string + ListResponse" where
  "pagedLister items client path page per_page refresh =
     Inr \<lparr>code = 200,
          data = \<lparr>total = int (length items),
                  content = take per_page (drop ((page - 1) * per_page) items)\<rparr>\<rparr>"

text \<open>A key generator that never returns one of the existing keys.\<close>

definition suffixKey :: "string \<Rightarrow> string list \<Rightarrow> string" where
  "suffixKey nm ks = nm @ ''#'' @ concat ks"

definition sampleParse :: "string \<Rightarrow> string + SeasonInfo" where
  "sampleParse nm =
     (if nm = ''Show A S02''
      then Inr \<lparr>cleanTitle = ''Show A'', seasonNumber = Some 2, year = None\<rparr>
      else if nm = ''Broken'' then Inl ''parse''
      else Inr \<lparr>cleanTitle = nm, seasonNumber = None, year = None\<rparr>)"

definition sampleShow :: TMDBResult where
  "sampleShow =
     \<lparr>r_id = 42, r_title = None, r_name = Some ''Show A'', r_poster_path = Some ''/a.jpg'',
      r_release_date = None, r_first_air_date = Some ''2019-05-01'',
      r_overview = ''A series'', r_vote_average = 8, r_media_type = ''tv''\<rparr>"

definition sampleSearch ::
  "string \<Rightarrow> string \<Rightarrow> string option \<Rightarrow> int option \<Rightarrow> string + SearchResponse" where
  "sampleSearch k q p y =
     (if q = ''Show A'' then Inr \<lparr>search_code = 200, result = Some sampleShow\<rparr>
      else if q = ''Offline'' then Inl ''network''
      else Inr \<lparr>search_code = 404, result = None\<rparr>)"

definition sampleSeasonOf :: "int \<Rightarrow> Season" where
  "sampleSeasonOf sn =
     \<lparr>s_season_number = sn, s_name = ''Season 2'', s_poster_path = None,
      s_overview = Some [], s_air_date = Some ''2021-01-01''\<rparr>"

definition sampleSeason :: "string \<Rightarrow> int \<Rightarrow> int \<Rightarrow> string option \<Rightarrow> string + SeasonResponse" where
  "sampleSeason k i sn p = Inr \<lparr>season_code = 200, season = Some (sampleSeasonOf sn)\<rparr>"

definition sampleConfig :: AdminConfig where
  "sampleConfig =
     \<lparr>OpenListConfig = Some \<lparr>Enabled = True, URL = ''http://list'', Username = ''u'',
         Password = ''p'', RootPath = [], LastRefreshTime = None, ResourceCount = None\<rparr>,
      SiteConfig = \<lparr>TMDBApiKey = Some ''key'', TMDBProxy = None\<rparr>\<rparr>"

text \<open>An index with one entry, for the folder \<open>Movie B\<close>, stored as the text \<open>saved\<close>.\<close>

definition sampleIndex :: MetaInfo where
  "sampleIndex = \<lparr>folders = [(''k1'', placeholder ''Movie B'' 7)], last_refresh = 7\<rparr>"

definition sampleEnv :: "RemoteItem list \<Rightarrow> env" where
  "sampleEnv items =
     \<lparr>getConfig = Inr sampleConfig,
      createScanTask = (\<lambda>n. ''task1''),
      generateFolderKey = suffixKey,
      parseSeasonFromTitle = sampleParse,
      searchTMDB = sampleSearch,
      getTVSeasonDetails = sampleSeason,
      listDirectory = pagedLister items,
      Date_now = (\<lambda>n. int n),
      JSON_parse = (\<lambda>s. if s = ''saved'' then Inr (wellFormed sampleIndex)
                        else if s = ''{}'' then Inr NotAnIndex else Inl ''SyntaxError''),
      JSON_stringify = (\<lambda>m. ''saved''),
      db_get_rejects = (\<lambda>k. None),
      db_set_rejects = (\<lambda>k v. None),
      db_saveAdminConfig = (\<lambda>c. None)\<rparr>"

definition sampleWorld :: world where
  "sampleWorld = \<lparr>store = [metainfoKey \<mapsto> ''saved''], cache = Map.empty, calls = []\<rparr>"

definition dir :: "string \<Rightarrow> RemoteItem" where
  "dir nm = \<lparr>item_name = nm, is_dir = True\<rparr>"

definition plainFile :: "string \<Rightarrow> RemoteItem" where
  "plainFile nm = \<lparr>item_name = nm, is_dir = False\<rparr>"

text \<open>A lister whose first page answers with one directory of a total of two, and
  whose later pages answer with code 500.\<close>

definition failingLister ::
  "OpenListClient \<Rightarrow> string \<Rightarrow> nat \<Rightarrow> nat \<Rightarrow> bool \<Rightarrow> string + ListResponse" where
  "failingLister client path page per_page refresh =
     (if page = 1 then Inr \<lparr>code = 200, data = \<lparr>total = 2, content = [dir ''Movie A'']\<rparr>\<rparr>
      else Inr \<lparr>code = 500, data = \<lparr>total = 0, content = []\<rparr>\<rparr>)"

text \<open>The sample environment with the failing lister, and a world whose cache holds an
  index for the root.\<close>

definition failingEnv :: env where
  "failingEnv = (sampleEnv [])\<lparr>listDirectory := failingLister\<rparr>"

definition cachedWorld :: world where
  "cachedWorld = sampleWorld\<lparr>cache := [''/'' \<mapsto> sampleIndex]\<rparr>"

text \<open>The world after the scan of \<open>cachedWorld\<close> with the failing lister.\<close>

definition failedWorld :: world where
  "failedWorld =
     cachedWorld\<lparr>cache := Map.empty,
       calls := [UpdateScanTaskProgress ''t'' 0 0 None, GetGlobalValue metainfoKey,
                 InvalidateMetaInfoCache ''/'',
                 ListDirectory \<lparr>url = ''u'', username = ''n'', password = ''p''\<rparr> ''/'' 1 100 True,
                 ListDirectory \<lparr>url = ''u'', username = ''n'', password = ''p''\<rparr> ''/'' 2 100 True,
                 FailScanTask ''t'' ListFetchFailed]\<rparr>"

text \<open>Two remote folders: the first is in \<open>sampleIndex\<close>, the second is new and the
  search finds it.\<close>

definition twoFolders :: "RemoteItem list" where
  "twoFolders = [dir ''Movie B'', dir ''Show A S02'']"

section \<open>Properties\<close>

lemmas sample_defs = sampleEnv_def sampleWorld_def pagedLister_def suffixKey_def sampleParse_def
  sampleSearch_def sampleSeason_def sampleSeasonOf_def sampleShow_def sampleConfig_def
  sampleIndex_def dir_def plainFile_def metainfoKey_def

subsection \<open>Preconditions of startOpenListRefresh\<close>

text \<open>
  C4. When the configuration lacks the OpenList section, or the section is not enabled, or
  its URL, user name or password is empty, or the TMDB API key is missing or empty,
  \<^verbatim>\<open>startOpenListRefresh\<close> throws and returns no task identifier, and the only call it
  has made is the one to \<^verbatim>\<open>getConfig\<close>: neither \<^verbatim>\<open>cleanupOldTasks\<close> nor
  \<^verbatim>\<open>createScanTask\<close> has run.
\<close>

theorem startOpenListRefresh_precondition:
  assumes cfg: "getConfig env = Inr config"
    and missing:
      "OpenListConfig config = None \<or>
       (\<exists>c. OpenListConfig config = Some c \<and>
            (\<not> Enabled c \<or> URL c = [] \<or> Username c = [] \<or> Password c = [])) \<or>
       TMDBApiKey (SiteConfig config) = None \<or> TMDBApiKey (SiteConfig config) = Some []"
  shows "(startOpenListRefresh env fuel clearMetaInfo w =
            (Inl OpenListNotConfigured, Some (logCall GetConfig w)) \<or>
          startOpenListRefresh env fuel clearMetaInfo w =
            (Inl TMDBApiKeyNotConfigured, Some (logCall GetConfig w))) \<and>
         CleanupOldTasks \<notin> set (newCalls w (logCall GetConfig w)) \<and>
         (\<forall>t. CreateScanTask t \<notin> set (newCalls w (logCall GetConfig w)))"
proof -
  have log: "newCalls w (logCall GetConfig w) = [GetConfig]"
    by (simp add: newCalls_def logCall_def)
  have res: "startOpenListRefresh env fuel clearMetaInfo w =
               (Inl OpenListNotConfigured, Some (logCall GetConfig w)) \<or>
             startOpenListRefresh env fuel clearMetaInfo w =
               (Inl TMDBApiKeyNotConfigured, Some (logCall GetConfig w))"
    using missing
    by (auto simp: startOpenListRefresh_def cfg Let_def split: option.splits)
  show ?thesis using res by (simp add: log)
qed

theorem startOpenListRefresh_precondition_witness:
  "startOpenListRefresh
     (sampleEnv []\<lparr>getConfig := Inr (sampleConfig\<lparr>OpenListConfig := None\<rparr>)\<rparr>)
     5 False sampleWorld =
     (Inl OpenListNotConfigured, Some (logCall GetConfig sampleWorld))"
  using startOpenListRefresh_precondition
    [of "sampleEnv []\<lparr>getConfig := Inr (sampleConfig\<lparr>OpenListConfig := None\<rparr>)\<rparr>"
        "sampleConfig\<lparr>OpenListConfig := None\<rparr>" 5 False sampleWorld]
  by (simp add: sampleEnv_def sampleConfig_def startOpenListRefresh_def)

subsection \<open>One folder\<close>

lemma set_addKey [simp]: "set (addKey folderKey ks) = insert folderKey (set ks)"
  by (auto simp add: addKey_def)

lemma map_of_setFolder:
  "map_of (folders (setFolder k v m)) = (map_of (folders m))(k \<mapsto> v)"
  by (simp add: setFolder_def update_conv')

lemma tryResolve_found:
  assumes parse: "parseSeasonFromTitle env nm = Inr seasonInfo"
    and search: "searchTMDB env tmdbApiKey
                   (if cleanTitle seasonInfo = [] then nm else cleanTitle seasonInfo) tmdbProxy
                   (if truthy_num (year seasonInfo) then year seasonInfo else None) = Inr searchResult"
    and found: "search_code searchResult = 200" "result searchResult = Some r"
  shows "tryResolve env tmdbApiKey tmdbProxy nm cs =
     (let cs1 = cs @ [SearchTMDB tmdbApiKey
                   (if cleanTitle seasonInfo = [] then nm else cleanTitle seasonInfo) tmdbProxy
                   (if truthy_num (year seasonInfo) then year seasonInfo else None)];
          p = resolveSeason env tmdbApiKey tmdbProxy r seasonInfo
                (matchedFolderInfo nm r (Date_now env (length cs1))) cs1
      in (Inr (fst p, True), snd p @ [SetTimeout 300]))"
  using found
  by (simp add: tryResolve_def parse search Let_def split_beta)

lemma resolveSeason_found:
  assumes tv: "r_media_type r = ''tv''" "seasonNumber seasonInfo = Some sn" "sn \<noteq> 0"
    and details: "getTVSeasonDetails env tmdbApiKey (r_id r) sn tmdbProxy = Inr seasonDetails"
      "season_code seasonDetails = 200" "season seasonDetails = Some s"
  shows "resolveSeason env tmdbApiKey tmdbProxy r seasonInfo folderInfo cs =
     (applySeason s folderInfo, cs @ [GetTVSeasonDetails tmdbApiKey (r_id r) sn tmdbProxy])"
  using tv details by (simp add: resolveSeason_def truthy_num_def Let_def)

lemma processFolder_new:
  assumes new: "clearMetaInfo \<or> \<not> has nameToKey (item_name folder)"
    and res: "tryResolve env tmdbApiKey tmdbProxy (item_name folder)
            (lcalls st @ [UpdateScanTaskProgress taskId (i + 1) n (Some (item_name folder))]) = (Inr (fi, b), cs)"
  shows "processFolder env taskId tmdbApiKey tmdbProxy clearMetaInfo nameToKey n i folder st =
     st\<lparr>metaInfo := setFolder (generateFolderKey env (item_name folder) (existingKeys st)) fi (metaInfo st),
        existingKeys := addKey (generateFolderKey env (item_name folder) (existingKeys st)) (existingKeys st),
        newCount := (if b then newCount st + 1 else newCount st),
        errorCount := (if b then errorCount st else errorCount st + 1),
        lcalls := cs\<rparr>"
  using new res by (cases b) (auto simp add: processFolder_def Let_def)

lemma processFolder_caught:
  assumes new: "clearMetaInfo \<or> \<not> has nameToKey (item_name folder)"
    and res: "tryResolve env tmdbApiKey tmdbProxy (item_name folder)
            (lcalls st @ [UpdateScanTaskProgress taskId (i + 1) n (Some (item_name folder))]) = (Inl e, cs)"
  shows "processFolder env taskId tmdbApiKey tmdbProxy clearMetaInfo nameToKey n i folder st =
     st\<lparr>metaInfo := setFolder (generateFolderKey env (item_name folder) (existingKeys st))
            (placeholder (item_name folder) (Date_now env (length cs))) (metaInfo st),
        existingKeys := addKey (generateFolderKey env (item_name folder) (existingKeys st)) (existingKeys st),
        errorCount := errorCount st + 1,
        lcalls := cs\<rparr>"
  using new res by (auto simp add: processFolder_def Let_def)

lemma processFolder_existing:
  assumes "\<not> clearMetaInfo" "has nameToKey (item_name folder)"
  shows "processFolder env taskId tmdbApiKey tmdbProxy clearMetaInfo nameToKey n i folder st =
     st\<lparr>existingCount := existingCount st + 1,
        lcalls := lcalls st @ [UpdateScanTaskProgress taskId (i + 1) n (Some (item_name folder))]\<rparr>"
  using assms by (simp add: processFolder_def Let_def)

lemma applySeason_fields:
  "title (applySeason s fi) = (if s_season_number s > 1 then title fi @ '' '' @ s_name s else title fi)"
  "poster_path (applySeason s fi) = (if truthy (s_poster_path s) then s_poster_path s else poster_path fi)"
  "overview (applySeason s fi) = or_else (s_overview s) (overview fi)"
  "release_date (applySeason s fi) = or_else (s_air_date s) (release_date fi)"
  "season_number (applySeason s fi) = Some (s_season_number s)"
  "season_name (applySeason s fi) = Some (s_name s)"
  "failed (applySeason s fi) = failed fi"
  "tmdb_id (applySeason s fi) = tmdb_id fi"
  "folderName (applySeason s fi) = folderName fi"
  by (auto simp add: applySeason_def Let_def truthy_def or_else_def split: option.splits)

lemmas folder_defs = processFolder_def tryResolve_def resolveSeason_def applySeason_def
  matchedFolderInfo_def placeholder_def has_def setFolder_def truthy_def truthy_num_def
  or_else_def initialScanState_def emptyMetaInfo_def

text \<open>
  C5 (as amended). For a folder that is resolved, when the search finds a TV series, the
  folder name carries a season number and the season lookup succeeds (code 200 with a
  season), the entry stored under the folder's key has: as title the base title followed
  by a space and the season's name when the returned season number is greater than 1, and
  the base title unchanged otherwise; the season's poster, overview and air date in place
  of the series' ones only where the season's value is present and not empty, and the
  series' value otherwise; the season's number and name; \<open>failed = False\<close>.
\<close>

theorem season_details_override:
  assumes new: "clearMetaInfo \<or> \<not> has nameToKey (item_name folder)"
    and parse: "parseSeasonFromTitle env (item_name folder) = Inr seasonInfo"
    and search: "searchTMDB env tmdbApiKey
                   (if cleanTitle seasonInfo = [] then item_name folder else cleanTitle seasonInfo)
                   tmdbProxy
                   (if truthy_num (year seasonInfo) then year seasonInfo else None) = Inr searchResult"
    and found: "search_code searchResult = 200" "result searchResult = Some r"
    and tv: "r_media_type r = ''tv''" "seasonNumber seasonInfo = Some sn" "sn \<noteq> 0"
    and details: "getTVSeasonDetails env tmdbApiKey (r_id r) sn tmdbProxy = Inr seasonDetails"
      "season_code seasonDetails = 200" "season seasonDetails = Some s"
    and base: "base = or_else (r_title r) (or_else (r_name r) (item_name folder))"
  shows "\<exists>fi. map_of (folders (metaInfo
              (processFolder env taskId tmdbApiKey tmdbProxy clearMetaInfo nameToKey n i folder st)))
            (generateFolderKey env (item_name folder) (existingKeys st)) = Some fi \<and>
          title fi = (if s_season_number s > 1 then base @ '' '' @ s_name s else base) \<and>
          poster_path fi = (if truthy (s_poster_path s) then s_poster_path s else r_poster_path r) \<and>
          overview fi = or_else (s_overview s) (r_overview r) \<and>
          release_date fi =
            or_else (s_air_date s) (or_else (r_release_date r) (or_else (r_first_air_date r) [])) \<and>
          season_number fi = Some (s_season_number s) \<and> season_name fi = Some (s_name s) \<and>
          failed fi = False \<and> tmdb_id fi = r_id r"
proof -
  let ?cs = "lcalls st @ [UpdateScanTaskProgress taskId (i + 1) n (Some (item_name folder))]"
  obtain fi0 cs1 where fi0: "fi0 = matchedFolderInfo (item_name folder) r (Date_now env (length cs1))"
    and tr: "tryResolve env tmdbApiKey tmdbProxy (item_name folder) ?cs =
             (Inr (applySeason s fi0, True),
              cs1 @ [GetTVSeasonDetails tmdbApiKey (r_id r) sn tmdbProxy] @ [SetTimeout 300])"
    by (simp add: tryResolve_found [OF parse search found] resolveSeason_found [OF tv details] Let_def)
  have pf: "map_of (folders (metaInfo
              (processFolder env taskId tmdbApiKey tmdbProxy clearMetaInfo nameToKey n i folder st)))
            (generateFolderKey env (item_name folder) (existingKeys st)) = Some (applySeason s fi0)"
    by (simp add: processFolder_new [OF new tr] map_of_setFolder)
  show ?thesis
    unfolding pf by (simp add: applySeason_fields fi0 matchedFolderInfo_def base)
qed

theorem season_details_override_witness:
  "\<exists>fi. map_of (folders (metaInfo
              (processFolder (sampleEnv []) ''t'' ''key'' None False [] 1 0 (dir ''Show A S02'')
                 (initialScanState (emptyMetaInfo 0) []))))
            (generateFolderKey (sampleEnv []) (item_name (dir ''Show A S02''))
               (existingKeys (initialScanState (emptyMetaInfo 0) []))) = Some fi \<and>
          title fi = (if s_season_number (sampleSeasonOf 2) > 1
                      then ''Show A'' @ '' '' @ s_name (sampleSeasonOf 2) else ''Show A'') \<and>
          poster_path fi = (if truthy (s_poster_path (sampleSeasonOf 2))
                            then s_poster_path (sampleSeasonOf 2) else r_poster_path sampleShow) \<and>
          overview fi = or_else (s_overview (sampleSeasonOf 2)) (r_overview sampleShow) \<and>
          release_date fi =
            or_else (s_air_date (sampleSeasonOf 2))
              (or_else (r_release_date sampleShow) (or_else (r_first_air_date sampleShow) [])) \<and>
          season_number fi = Some (s_season_number (sampleSeasonOf 2)) \<and>
          season_name fi = Some (s_name (sampleSeasonOf 2)) \<and>
          failed fi = False \<and> tmdb_id fi = r_id sampleShow"
proof (rule season_details_override
    [where seasonInfo = "\<lparr>cleanTitle = ''Show A'', seasonNumber = Some 2, year = None\<rparr>"
       and searchResult = "\<lparr>search_code = 200, result = Some sampleShow\<rparr>"
       and sn = 2
       and seasonDetails = "\<lparr>season_code = 200, season = Some (sampleSeasonOf 2)\<rparr>"])
  show "False \<or> \<not> has [] (item_name (dir ''Show A S02''))"
    by (simp add: has_def)
  show "parseSeasonFromTitle (sampleEnv []) (item_name (dir ''Show A S02'')) =
        Inr \<lparr>cleanTitle = ''Show A'', seasonNumber = Some 2, year = None\<rparr>"
    by (simp add: sampleEnv_def sampleParse_def dir_def)
  show "searchTMDB (sampleEnv []) ''key''
          (if cleanTitle \<lparr>cleanTitle = ''Show A'', seasonNumber = Some 2, year = None\<rparr> = []
           then item_name (dir ''Show A S02'')
           else cleanTitle \<lparr>cleanTitle = ''Show A'', seasonNumber = Some 2, year = None\<rparr>)
          None
          (if truthy_num (year \<lparr>cleanTitle = ''Show A'', seasonNumber = Some 2, year = None\<rparr>)
           then year \<lparr>cleanTitle = ''Show A'', seasonNumber = Some 2, year = None\<rparr> else None) =
        Inr \<lparr>search_code = 200, result = Some sampleShow\<rparr>"
    by (simp add: sampleEnv_def sampleSearch_def truthy_num_def)
  show "search_code \<lparr>search_code = 200, result = Some sampleShow\<rparr> = 200" by simp
  show "result \<lparr>search_code = 200, result = Some sampleShow\<rparr> = Some sampleShow" by simp
  show "r_media_type sampleShow = ''tv''" by (simp add: sampleShow_def)
  show "seasonNumber \<lparr>cleanTitle = ''Show A'', seasonNumber = Some 2, year = None\<rparr> = Some 2"
    by simp
  show "(2::int) \<noteq> 0" by simp
  show "getTVSeasonDetails (sampleEnv []) ''key'' (r_id sampleShow) 2 None =
        Inr \<lparr>season_code = 200, season = Some (sampleSeasonOf 2)\<rparr>"
    by (simp add: sampleEnv_def sampleSeason_def)
  show "season_code \<lparr>season_code = 200, season = Some (sampleSeasonOf 2)\<rparr> = 200" by simp
  show "season \<lparr>season_code = 200, season = Some (sampleSeasonOf 2)\<rparr> = Some (sampleSeasonOf 2)"
    by simp
  show "''Show A'' = or_else (r_title sampleShow)
          (or_else (r_name sampleShow) (item_name (dir ''Show A S02'')))"
    by (simp add: sampleShow_def or_else_def)
qed

text \<open>
  C5, counterexample to the claim as stated: the season lookup succeeds with a season whose
  overview is the empty string and which has no poster; the stored entry keeps the
  overview and the poster of the series.
\<close>

theorem season_overview_not_overridden:
  "sampleSeason ''key'' 42 2 None = Inr \<lparr>season_code = 200, season = Some (sampleSeasonOf 2)\<rparr> \<and>
   s_overview (sampleSeasonOf 2) = Some [] \<and> s_poster_path (sampleSeasonOf 2) = None \<and>
   map_option overview
     (map_of (folders (metaInfo
        (processFolder (sampleEnv []) ''t'' ''key'' None False [] 1 0 (dir ''Show A S02'')
           (initialScanState (emptyMetaInfo 0) []))))
        (suffixKey ''Show A S02'' [])) = Some ''A series'' \<and>
   map_option poster_path
     (map_of (folders (metaInfo
        (processFolder (sampleEnv []) ''t'' ''key'' None False [] 1 0 (dir ''Show A S02'')
           (initialScanState (emptyMetaInfo 0) []))))
        (suffixKey ''Show A S02'' [])) = Some (Some ''/a.jpg'')"
  by (simp add: sample_defs folder_defs Let_def update_conv')

lemma resolveSeason_calls:
  "snd (resolveSeason env k p r si fi cs) = cs \<or>
   snd (resolveSeason env k p r si fi cs) = cs @ [GetTVSeasonDetails k (r_id r) (the (seasonNumber si)) p]"
  by (simp add: resolveSeason_def Let_def split: sum.splits option.splits)

lemma tryResolve_calls:
  "\<exists>evs. snd (tryResolve env k p nm cs) = cs @ evs \<and> (\<forall>e\<in>set evs. isResolving e) \<and>
     (case fst (tryResolve env k p nm cs) of
        Inr x \<Rightarrow> evs \<noteq> [] \<and> last evs = SetTimeout 300
      | Inl e \<Rightarrow> SetTimeout 300 \<notin> set evs)"
proof (cases "parseSeasonFromTitle env nm")
  case (Inl e)
  then show ?thesis by (simp add: tryResolve_def)
next
  case (Inr si)
  let ?q = "if cleanTitle si = [] then nm else cleanTitle si"
  let ?y = "if truthy_num (year si) then year si else None"
  show ?thesis
  proof (cases "searchTMDB env k ?q p ?y")
    case (Inl e)
    then show ?thesis using Inr by (simp add: tryResolve_def Let_def)
  next
    case sr: (Inr searchResult)
    show ?thesis
    proof (cases "if search_code searchResult = 200 then result searchResult else None")
      case None
      then show ?thesis using Inr sr by (simp add: tryResolve_def Let_def)
    next
      case (Some r)
      let ?cs1 = "cs @ [SearchTMDB k ?q p ?y]"
      let ?fi = "matchedFolderInfo nm r (Date_now env (length ?cs1))"
      have tr: "tryResolve env k p nm cs =
          (Inr (fst (resolveSeason env k p r si ?fi ?cs1), True),
           snd (resolveSeason env k p r si ?fi ?cs1) @ [SetTimeout 300])"
        using Inr sr Some by (simp add: tryResolve_def Let_def split_beta)
      from resolveSeason_calls [of env k p r si ?fi ?cs1]
      show ?thesis
      proof
        assume "snd (resolveSeason env k p r si ?fi ?cs1) = ?cs1"
        then show ?thesis by (simp add: tr)
      next
        assume "snd (resolveSeason env k p r si ?fi ?cs1) =
                ?cs1 @ [GetTVSeasonDetails k (r_id r) (the (seasonNumber si)) p]"
        then show ?thesis by (simp add: tr)
      qed
    qed
  qed
qed

lemma processFolder_calls:
  "\<exists>evs. lcalls (processFolder env taskId k p clearMetaInfo nameToKey n i folder st) =
     lcalls st @ UpdateScanTaskProgress taskId (i + 1) n (Some (item_name folder)) # evs \<and>
     (\<forall>e\<in>set evs. isResolving e)"
proof (cases "\<not> clearMetaInfo \<and> has nameToKey (item_name folder)")
  case True
  then show ?thesis by (simp add: processFolder_existing)
next
  case False
  then have new: "clearMetaInfo \<or> \<not> has nameToKey (item_name folder)" by blast
  let ?cs = "lcalls st @ [UpdateScanTaskProgress taskId (i + 1) n (Some (item_name folder))]"
  obtain evs where evs: "snd (tryResolve env k p (item_name folder) ?cs) = ?cs @ evs"
    "\<forall>e\<in>set evs. isResolving e"
    using tryResolve_calls [of env k p "item_name folder" ?cs] by blast
  show ?thesis
  proof (cases "fst (tryResolve env k p (item_name folder) ?cs)")
    case (Inl e)
    then have "tryResolve env k p (item_name folder) ?cs = (Inl e, ?cs @ evs)"
      using evs(1) by (simp add: prod_eq_iff)
    from processFolder_caught [OF new this] evs(2) show ?thesis by simp
  next
    case (Inr x)
    then have "tryResolve env k p (item_name folder) ?cs = (Inr (fst x, snd x), ?cs @ evs)"
      using evs(1) by (simp add: prod_eq_iff)
    from processFolder_new [OF new this] evs(2) show ?thesis by simp
  qed
qed

text \<open>
  The delay of 300 ms (line 247) is the last statement inside the try. A resolution
  attempt in which the parser and the search return, whether the search finds a match or
  not, ends with it: it is the last call of the iteration.
\<close>

lemma delay_after_completed_resolution:
  assumes new: "clearMetaInfo \<or> \<not> has nameToKey (item_name folder)"
    and parse: "parseSeasonFromTitle env (item_name folder) = Inr seasonInfo"
    and search: "searchTMDB env tmdbApiKey
                   (if cleanTitle seasonInfo = [] then item_name folder else cleanTitle seasonInfo)
                   tmdbProxy
                   (if truthy_num (year seasonInfo) then year seasonInfo else None) = Inr searchResult"
  shows "\<exists>evs. lcalls (processFolder env taskId tmdbApiKey tmdbProxy clearMetaInfo nameToKey n i
                    folder st) =
           lcalls st @ UpdateScanTaskProgress taskId (i + 1) n (Some (item_name folder)) # evs @
             [SetTimeout 300]"
proof -
  let ?cs = "lcalls st @ [UpdateScanTaskProgress taskId (i + 1) n (Some (item_name folder))]"
  let ?t = "tryResolve env tmdbApiKey tmdbProxy (item_name folder) ?cs"
  obtain x where x: "fst ?t = Inr x"
    by (cases "if search_code searchResult = 200 then result searchResult else None")
       (simp_all add: tryResolve_def parse search Let_def split_beta)
  obtain evs where evs: "snd ?t = ?cs @ evs" "evs \<noteq> []" "last evs = SetTimeout 300"
    using tryResolve_calls [of env tmdbApiKey tmdbProxy "item_name folder" ?cs] x by auto
  have t: "?t = (Inr (fst x, snd x), ?cs @ evs)"
    using x evs(1) by (simp add: prod_eq_iff)
  obtain ys where ys: "evs = ys @ [SetTimeout 300]"
    using evs(2,3) by (metis append_butlast_last_id)
  have "lcalls (processFolder env taskId tmdbApiKey tmdbProxy clearMetaInfo nameToKey n i folder st) =
          ?cs @ evs"
    by (simp add: processFolder_new [OF new t])
  then have "lcalls (processFolder env taskId tmdbApiKey tmdbProxy clearMetaInfo nameToKey n i folder st) =
          lcalls st @ UpdateScanTaskProgress taskId (i + 1) n (Some (item_name folder)) # ys @
             [SetTimeout 300]"
    by (simp add: ys)
  then show ?thesis by blast
qed

text \<open>
  C7. A resolution attempt that ends in a caught exception is not followed by the delay.
  For a new folder whose parser or search throws, the iteration writes the placeholder
  and counts an error, as it does when the search finds nothing, but its calls are the
  progress report and at most the search: the catch of lines 248 to 263 has no delay, so
  the next folder is processed at once.
\<close>

theorem no_delay_after_caught_exception:
  assumes new: "clearMetaInfo \<or> \<not> has nameToKey (item_name folder)"
    and throws:
      "parseSeasonFromTitle env (item_name folder) = Inl msg \<or>
       parseSeasonFromTitle env (item_name folder) = Inr seasonInfo \<and>
       searchTMDB env tmdbApiKey
         (if cleanTitle seasonInfo = [] then item_name folder else cleanTitle seasonInfo)
         tmdbProxy
         (if truthy_num (year seasonInfo) then year seasonInfo else None) = Inl msg"
  shows "\<exists>evs t.
           lcalls (processFolder env taskId tmdbApiKey tmdbProxy clearMetaInfo nameToKey n i
                     folder st) =
             lcalls st @ UpdateScanTaskProgress taskId (i + 1) n (Some (item_name folder)) # evs \<and>
           SetTimeout 300 \<notin> set evs \<and> length evs \<le> 1 \<and>
           errorCount (processFolder env taskId tmdbApiKey tmdbProxy clearMetaInfo nameToKey n i
                         folder st) = errorCount st + 1 \<and>
           map_of (folders (metaInfo
             (processFolder env taskId tmdbApiKey tmdbProxy clearMetaInfo nameToKey n i folder st)))
             (generateFolderKey env (item_name folder) (existingKeys st)) =
             Some (placeholder (item_name folder) t)"
proof -
  let ?cs = "lcalls st @ [UpdateScanTaskProgress taskId (i + 1) n (Some (item_name folder))]"
  let ?q = "if cleanTitle seasonInfo = [] then item_name folder else cleanTitle seasonInfo"
  let ?y = "if truthy_num (year seasonInfo) then year seasonInfo else None"
  let ?st1 = "processFolder env taskId tmdbApiKey tmdbProxy clearMetaInfo nameToKey n i folder st"
  from throws obtain evs where
    t: "tryResolve env tmdbApiKey tmdbProxy (item_name folder) ?cs = (Inl (Thrown msg), ?cs @ evs)"
    and evs: "evs = [] \<or> evs = [SearchTMDB tmdbApiKey ?q tmdbProxy ?y]"
  proof
    assume "parseSeasonFromTitle env (item_name folder) = Inl msg"
    then have "tryResolve env tmdbApiKey tmdbProxy (item_name folder) ?cs =
        (Inl (Thrown msg), ?cs @ [])"
      by (simp add: tryResolve_def)
    then show ?thesis using that by blast
  next
    assume "parseSeasonFromTitle env (item_name folder) = Inr seasonInfo \<and>
       searchTMDB env tmdbApiKey ?q tmdbProxy ?y = Inl msg"
    then have "tryResolve env tmdbApiKey tmdbProxy (item_name folder) ?cs =
        (Inl (Thrown msg), ?cs @ [SearchTMDB tmdbApiKey ?q tmdbProxy ?y])"
      by (simp add: tryResolve_def Let_def)
    then show ?thesis using that by blast
  qed
  have st1: "?st1 =
      st\<lparr>metaInfo := setFolder (generateFolderKey env (item_name folder) (existingKeys st))
             (placeholder (item_name folder) (Date_now env (length (?cs @ evs)))) (metaInfo st),
         existingKeys := addKey (generateFolderKey env (item_name folder) (existingKeys st))
             (existingKeys st),
         errorCount := errorCount st + 1,
         lcalls := ?cs @ evs\<rparr>"
    by (rule processFolder_caught [OF new t])
  have "lcalls ?st1 =
      lcalls st @ UpdateScanTaskProgress taskId (i + 1) n (Some (item_name folder)) # evs"
    unfolding st1 by simp
  moreover have "SetTimeout 300 \<notin> set evs \<and> length evs \<le> 1" using evs by auto
  moreover have "errorCount ?st1 = errorCount st + 1" unfolding st1 by simp
  moreover have "map_of (folders (metaInfo ?st1))
      (generateFolderKey env (item_name folder) (existingKeys st)) =
      Some (placeholder (item_name folder) (Date_now env (length (?cs @ evs))))"
    unfolding st1 by (simp add: map_of_setFolder)
  ultimately show ?thesis by blast
qed

theorem no_delay_after_caught_exception_witness:
  "\<not> has [] (item_name (dir ''Offline'')) \<and>
   parseSeasonFromTitle (sampleEnv []) (item_name (dir ''Offline'')) =
     Inr \<lparr>cleanTitle = ''Offline'', seasonNumber = None, year = None\<rparr> \<and>
   searchTMDB (sampleEnv []) ''key'' ''Offline'' None None = Inl ''network'' \<and>
   lcalls (processFolder (sampleEnv []) ''t'' ''key'' None False [] 2 0 (dir ''Offline'')
             (initialScanState (emptyMetaInfo 0) [])) =
     [UpdateScanTaskProgress ''t'' 1 2 (Some ''Offline''), SearchTMDB ''key'' ''Offline'' None None] \<and>
   (\<exists>evs t.
      lcalls (processFolder (sampleEnv []) ''t'' ''key'' None False [] 2 0 (dir ''Offline'')
                (initialScanState (emptyMetaInfo 0) [])) =
        lcalls (initialScanState (emptyMetaInfo 0) []) @
          UpdateScanTaskProgress ''t'' (0 + 1) 2 (Some (item_name (dir ''Offline''))) # evs \<and>
      SetTimeout 300 \<notin> set evs \<and> length evs \<le> 1 \<and>
      errorCount (processFolder (sampleEnv []) ''t'' ''key'' None False [] 2 0 (dir ''Offline'')
                    (initialScanState (emptyMetaInfo 0) [])) =
        errorCount (initialScanState (emptyMetaInfo 0) []) + 1 \<and>
      map_of (folders (metaInfo
        (processFolder (sampleEnv []) ''t'' ''key'' None False [] 2 0 (dir ''Offline'')
           (initialScanState (emptyMetaInfo 0) []))))
        (generateFolderKey (sampleEnv []) (item_name (dir ''Offline''))
           (existingKeys (initialScanState (emptyMetaInfo 0) []))) =
        Some (placeholder (item_name (dir ''Offline'')) t))"
proof -
  let ?si = "\<lparr>cleanTitle = ''Offline'', seasonNumber = None, year = None\<rparr>"
  have new: "False \<or> \<not> has [] (item_name (dir ''Offline''))"
    by (simp add: has_def)
  have parse: "parseSeasonFromTitle (sampleEnv []) (item_name (dir ''Offline'')) = Inr ?si"
    by (simp add: sampleEnv_def sampleParse_def dir_def)
  have search: "searchTMDB (sampleEnv []) ''key'' ''Offline'' None None = Inl ''network''"
    by (simp add: sampleEnv_def sampleSearch_def)
  have throws: "parseSeasonFromTitle (sampleEnv []) (item_name (dir ''Offline'')) = Inl ''network'' \<or>
       parseSeasonFromTitle (sampleEnv []) (item_name (dir ''Offline'')) = Inr ?si \<and>
       searchTMDB (sampleEnv []) ''key''
         (if cleanTitle ?si = [] then item_name (dir ''Offline'') else cleanTitle ?si)
         None
         (if truthy_num (year ?si) then year ?si else None) = Inl ''network''"
    using parse search by (simp add: truthy_num_def)
  have run: "lcalls (processFolder (sampleEnv []) ''t'' ''key'' None False [] 2 0 (dir ''Offline'')
             (initialScanState (emptyMetaInfo 0) [])) =
     [UpdateScanTaskProgress ''t'' 1 2 (Some ''Offline''), SearchTMDB ''key'' ''Offline'' None None]"
    by (simp add: sample_defs folder_defs Let_def)
  from no_delay_after_caught_exception [OF new throws, of "''t''" 2 0
      "initialScanState (emptyMetaInfo 0) []"]
  show ?thesis using new parse search run by blast
qed

text \<open>
  A scan of two new folders: the search for the first throws, the exception is caught, and
  the second folder is processed with no delay in between; the search for the second finds
  nothing, and the delay follows.
\<close>

lemma scan_without_delay:
  "lcalls (scanLoop (sampleEnv []) ''t'' ''key'' None False [] 2 0 [dir ''Offline'', dir ''Nope'']
            (initialScanState (emptyMetaInfo 0) [])) =
     [UpdateScanTaskProgress ''t'' 1 2 (Some ''Offline''), SearchTMDB ''key'' ''Offline'' None None,
      UpdateScanTaskProgress ''t'' 2 2 (Some ''Nope''), SearchTMDB ''key'' ''Nope'' None None,
      SetTimeout 300]"
  by (simp add: sample_defs folder_defs Let_def)

subsection \<open>The loop over the folders\<close>


lemma tryResolve_surj:
  "\<exists>r cs1. tryResolve env k p nm cs = (r, cs1)"
  by (cases "tryResolve env k p nm cs") simp

lemma processFolder_cases:
  obtains (existing) "\<not> clearMetaInfo" "has nameToKey (item_name folder)"
      "processFolder env taskId k p clearMetaInfo nameToKey n i folder st =
         st\<lparr>existingCount := existingCount st + 1,
            lcalls := lcalls st @ [UpdateScanTaskProgress taskId (i + 1) n (Some (item_name folder))]\<rparr>"
  | (resolved) fi b cs where "clearMetaInfo \<or> \<not> has nameToKey (item_name folder)"
      "tryResolve env k p (item_name folder)
         (lcalls st @ [UpdateScanTaskProgress taskId (i + 1) n (Some (item_name folder))]) =
         (Inr (fi, b), cs)"
      "processFolder env taskId k p clearMetaInfo nameToKey n i folder st =
         st\<lparr>metaInfo := setFolder (generateFolderKey env (item_name folder) (existingKeys st)) fi
               (metaInfo st),
            existingKeys := addKey (generateFolderKey env (item_name folder) (existingKeys st))
               (existingKeys st),
            newCount := (if b then newCount st + 1 else newCount st),
            errorCount := (if b then errorCount st else errorCount st + 1),
            lcalls := cs\<rparr>"
  | (caught) e cs where "clearMetaInfo \<or> \<not> has nameToKey (item_name folder)"
      "tryResolve env k p (item_name folder)
         (lcalls st @ [UpdateScanTaskProgress taskId (i + 1) n (Some (item_name folder))]) =
         (Inl e, cs)"
      "processFolder env taskId k p clearMetaInfo nameToKey n i folder st =
         st\<lparr>metaInfo := setFolder (generateFolderKey env (item_name folder) (existingKeys st))
               (placeholder (item_name folder) (Date_now env (length cs))) (metaInfo st),
            existingKeys := addKey (generateFolderKey env (item_name folder) (existingKeys st))
               (existingKeys st),
            errorCount := errorCount st + 1,
            lcalls := cs\<rparr>"
proof (cases "\<not> clearMetaInfo \<and> has nameToKey (item_name folder)")
  case True
  then show ?thesis using existing processFolder_existing by blast
next
  case False
  then have new: "clearMetaInfo \<or> \<not> has nameToKey (item_name folder)" by blast
  let ?cs = "lcalls st @ [UpdateScanTaskProgress taskId (i + 1) n (Some (item_name folder))]"
  obtain r cs where t: "tryResolve env k p (item_name folder) ?cs = (r, cs)"
    using tryResolve_surj by blast
  show ?thesis
  proof (cases r)
    case (Inl e)
    with t have "tryResolve env k p (item_name folder) ?cs = (Inl e, cs)" by simp
    then show ?thesis using caught [OF new] processFolder_caught [OF new] by blast
  next
    case (Inr x)
    with t have "tryResolve env k p (item_name folder) ?cs = (Inr (fst x, snd x), cs)" by simp
    then show ?thesis using resolved [OF new] processFolder_new [OF new] by blast
  qed
qed

lemma processFolder_counts:
  "newCount (processFolder env taskId k p c names n i folder st) +
   existingCount (processFolder env taskId k p c names n i folder st) +
   errorCount (processFolder env taskId k p c names n i folder st) =
   Suc (newCount st + existingCount st + errorCount st)"
  by (cases rule: processFolder_cases [of c names folder env taskId k p n i st]) simp_all

lemma scanLoop_counts:
  "newCount (scanLoop env taskId k p c names n i fs st) +
   existingCount (scanLoop env taskId k p c names n i fs st) +
   errorCount (scanLoop env taskId k p c names n i fs st) =
   newCount st + existingCount st + errorCount st + length fs"
  by (induction fs arbitrary: i st) (simp_all add: processFolder_counts)

lemma resolveSeason_failed:
  "failed (fst (resolveSeason env k p r si fi cs)) = failed fi"
  by (simp add: resolveSeason_def Let_def applySeason_fields split: sum.splits option.splits)

lemma resolveSeason_folderName:
  "folderName (fst (resolveSeason env k p r si fi cs)) = folderName fi"
  by (simp add: resolveSeason_def Let_def applySeason_fields split: sum.splits option.splits)

lemma placeholder_fields:
  "failed (placeholder nm t) = True" "tmdb_id (placeholder nm t) = 0"
  "overview (placeholder nm t) = []" "title (placeholder nm t) = nm"
  "folderName (placeholder nm t) = nm" "media_type (placeholder nm t) = ''movie''"
  by (simp_all add: placeholder_def)

lemma tryResolve_entry:
  assumes "tryResolve env k p nm cs = (Inr (fi, b), cs1)"
  shows "folderName fi = nm \<and> (b \<longrightarrow> \<not> failed fi) \<and> (\<not> b \<longrightarrow> (\<exists>t. fi = placeholder nm t))"
proof (cases "parseSeasonFromTitle env nm")
  case (Inl e)
  then show ?thesis using assms by (simp add: tryResolve_def)
next
  case (Inr si)
  let ?q = "if cleanTitle si = [] then nm else cleanTitle si"
  let ?y = "if truthy_num (year si) then year si else None"
  show ?thesis
  proof (cases "searchTMDB env k ?q p ?y")
    case (Inl e)
    then show ?thesis using Inr assms by (simp add: tryResolve_def Let_def)
  next
    case sr: (Inr searchResult)
    show ?thesis
    proof (cases "if search_code searchResult = 200 then result searchResult else None")
      case None
      then show ?thesis using Inr sr assms
        by (auto simp add: tryResolve_def Let_def placeholder_fields)
    next
      case (Some r)
      then show ?thesis using Inr sr assms
        by (auto simp add: tryResolve_def Let_def split_beta resolveSeason_failed
            resolveSeason_folderName matchedFolderInfo_def)
    qed
  qed
qed

lemma processFolder_entries:
  assumes "map_of (folders (metaInfo (processFolder env taskId k p c names n i folder st))) key = Some e"
  shows "map_of (folders (metaInfo st)) key = Some e \<or>
         (folderName e = item_name folder \<and> (failed e \<longrightarrow> tmdb_id e = 0 \<and> overview e = []))"
proof (cases rule: processFolder_cases [of c names folder env taskId k p n i st])
  case existing
  then show ?thesis using assms by simp
next
  case (resolved fi b cs)
  from tryResolve_entry [OF resolved(2)]
  have "folderName fi = item_name folder \<and> (failed fi \<longrightarrow> tmdb_id fi = 0 \<and> overview fi = [])"
    by (cases b) (auto simp add: placeholder_fields)
  then show ?thesis using assms resolved(3)
    by (auto simp add: map_of_setFolder split: if_splits)
next
  case (caught e' cs)
  then show ?thesis using assms
    by (auto simp add: map_of_setFolder placeholder_fields split: if_splits)
qed

lemma scanLoop_entries:
  assumes "map_of (folders (metaInfo (scanLoop env taskId k p c names n i fs st))) key = Some e"
  shows "map_of (folders (metaInfo st)) key = Some e \<or>
         (folderName e \<in> item_name ` set fs \<and> (failed e \<longrightarrow> tmdb_id e = 0 \<and> overview e = []))"
  using assms
proof (induction fs arbitrary: i st)
  case Nil
  then show ?case by simp
next
  case (Cons folder rest)
  from Cons.IH [of "i + 1" "processFolder env taskId k p c names n i folder st"] Cons.prems
  have "map_of (folders (metaInfo (processFolder env taskId k p c names n i folder st))) key = Some e \<or>
        (folderName e \<in> item_name ` set rest \<and> (failed e \<longrightarrow> tmdb_id e = 0 \<and> overview e = []))"
    by simp
  then show ?case using processFolder_entries [of env taskId k p c names n i folder st key e]
    by auto
qed

lemma processFolder_keeps:
  assumes contract: "\<forall>nm ks. generateFolderKey env nm ks \<notin> set ks"
    and key: "key \<in> set (existingKeys st)"
  shows "map_of (folders (metaInfo (processFolder env taskId k p c names n i folder st))) key =
           map_of (folders (metaInfo st)) key \<and>
         key \<in> set (existingKeys (processFolder env taskId k p c names n i folder st))"
proof -
  have ne: "generateFolderKey env (item_name folder) (existingKeys st) \<noteq> key"
    using contract key by metis
  show ?thesis
    by (cases rule: processFolder_cases [of c names folder env taskId k p n i st])
       (use ne key in \<open>simp_all add: map_of_setFolder\<close>)
qed

lemma scanLoop_keeps:
  assumes contract: "\<forall>nm ks. generateFolderKey env nm ks \<notin> set ks"
    and key: "key \<in> set (existingKeys st)"
  shows "map_of (folders (metaInfo (scanLoop env taskId k p c names n i fs st))) key =
           map_of (folders (metaInfo st)) key"
  using key
proof (induction fs arbitrary: i st)
  case Nil
  then show ?case by simp
next
  case (Cons folder rest)
  from processFolder_keeps [OF contract Cons.prems, of taskId k p c names n i folder]
  show ?case using Cons.IH [of "processFolder env taskId k p c names n i folder st" "i + 1"]
    by simp
qed

lemma tryResolve_fails:
  assumes "tryResolve env k p nm cs = (Inr (fi, b), cs1)"
  shows "b = (\<not> resolutionFails env k p nm)"
proof (cases "parseSeasonFromTitle env nm")
  case (Inl e)
  then show ?thesis using assms by (simp add: tryResolve_def)
next
  case (Inr si)
  let ?q = "if cleanTitle si = [] then nm else cleanTitle si"
  let ?y = "if truthy_num (year si) then year si else None"
  show ?thesis
  proof (cases "searchTMDB env k ?q p ?y")
    case (Inl e)
    then show ?thesis using Inr assms by (simp add: tryResolve_def Let_def)
  next
    case sr: (Inr searchResult)
    show ?thesis
    proof (cases "if search_code searchResult = 200 then result searchResult else None")
      case None
      then show ?thesis using Inr sr assms
        by (auto simp add: tryResolve_def resolutionFails_def Let_def split: if_splits)
    next
      case (Some r)
      then show ?thesis using Inr sr assms
        by (auto simp add: tryResolve_def resolutionFails_def Let_def split_beta
            split: if_splits)
    qed
  qed
qed

lemma tryResolve_caught:
  assumes "tryResolve env k p nm cs = (Inl e, cs1)"
  shows "resolutionFails env k p nm"
  using assms
  by (auto simp add: tryResolve_def resolutionFails_def Let_def split_beta
      split: sum.splits option.splits if_splits)

text \<open>The calls and the counters of the loop, folder by folder.\<close>

lemma resolveSeason_log:
  "snd (resolveSeason env k p r si fi cs) = cs @ snd (resolveSeason env k p r si fi1 [])"
  by (simp add: resolveSeason_def Let_def split: sum.splits option.splits)

lemma tryResolve_log:
  "snd (tryResolve env k p nm cs) = cs @ resolvingCalls env k p nm"
proof (cases "parseSeasonFromTitle env nm")
  case (Inl e)
  then show ?thesis by (simp add: tryResolve_def resolvingCalls_def)
next
  case (Inr si)
  let ?q = "if cleanTitle si = [] then nm else cleanTitle si"
  let ?y = "if truthy_num (year si) then year si else None"
  show ?thesis
  proof (cases "searchTMDB env k ?q p ?y")
    case (Inl e)
    then show ?thesis using Inr by (simp add: tryResolve_def resolvingCalls_def Let_def)
  next
    case sr: (Inr searchResult)
    show ?thesis
    proof (cases "if search_code searchResult = 200 then result searchResult else None")
      case None
      then show ?thesis using Inr sr by (simp add: tryResolve_def resolvingCalls_def Let_def)
    next
      case (Some r)
      let ?cs1 = "cs @ [SearchTMDB k ?q p ?y]"
      let ?fi = "matchedFolderInfo nm r (Date_now env (length ?cs1))"
      let ?fresh = "matchedFolderInfo nm r (Date_now env (length [SearchTMDB k ?q p ?y]))"
      have a: "snd (tryResolve env k p nm cs) =
          snd (resolveSeason env k p r si ?fi ?cs1) @ [SetTimeout 300]"
        using Inr sr Some by (simp add: tryResolve_def Let_def split_beta)
      have b: "resolvingCalls env k p nm =
          snd (resolveSeason env k p r si ?fresh [SearchTMDB k ?q p ?y]) @ [SetTimeout 300]"
        using Inr sr Some by (simp add: tryResolve_def resolvingCalls_def Let_def split_beta)
      show ?thesis
        unfolding a b
        by (subst resolveSeason_log [of env k p r si ?fi ?cs1 ?fresh],
            subst resolveSeason_log [of env k p r si ?fresh "[SearchTMDB k ?q p ?y]" ?fresh]) simp
    qed
  qed
qed

lemma resolvingCalls_isResolving: "\<forall>e\<in>set (resolvingCalls env k p nm). isResolving e"
  using tryResolve_calls [of env k p nm "[]"] by (auto simp add: resolvingCalls_def)

lemma processFolder_log:
  "lcalls (processFolder env taskId k p c names n i folder st) =
     lcalls st @ UpdateScanTaskProgress taskId (i + 1) n (Some (item_name folder)) #
       (if \<not> c \<and> has names (item_name folder) then []
        else resolvingCalls env k p (item_name folder))"
proof (cases rule: processFolder_cases [of c names folder env taskId k p n i st])
  case existing
  then show ?thesis by simp
next
  case (resolved fi b cs)
  from tryResolve_log [of env k p "item_name folder"
      "lcalls st @ [UpdateScanTaskProgress taskId (i + 1) n (Some (item_name folder))]"]
  show ?thesis using resolved by auto
next
  case (caught e cs)
  from tryResolve_log [of env k p "item_name folder"
      "lcalls st @ [UpdateScanTaskProgress taskId (i + 1) n (Some (item_name folder))]"]
  show ?thesis using caught by auto
qed

lemma scanLoop_log_exact:
  "lcalls (scanLoop env taskId k p c names n i fs st) =
     lcalls st @
     concat (map (\<lambda>(j, folder).
                 UpdateScanTaskProgress taskId (j + 1) n (Some (item_name folder)) #
                 (if \<not> c \<and> has names (item_name folder) then []
                  else resolvingCalls env k p (item_name folder)))
               (enumerate i fs))"
  by (induction fs arbitrary: i st) (simp_all add: processFolder_log)

lemma processFolder_counters:
  "(newCount (processFolder env taskId k p c names n i folder st),
    existingCount (processFolder env taskId k p c names n i folder st),
    errorCount (processFolder env taskId k p c names n i folder st)) =
   (if \<not> c \<and> has names (item_name folder)
    then (newCount st, existingCount st + 1, errorCount st)
    else if resolutionFails env k p (item_name folder)
    then (newCount st, existingCount st, errorCount st + 1)
    else (newCount st + 1, existingCount st, errorCount st))"
proof (cases rule: processFolder_cases [of c names folder env taskId k p n i st])
  case existing
  then show ?thesis by simp
next
  case (resolved fi b cs)
  from tryResolve_fails [OF resolved(2)] show ?thesis using resolved(1,3) by auto
next
  case (caught e cs)
  from tryResolve_caught [OF caught(2)] show ?thesis using caught(1,3) by auto
qed

lemma scanLoop_counters:
  "newCount (scanLoop env taskId k p c names n i fs st) =
     newCount st + length (filter (\<lambda>f. (c \<or> \<not> has names (item_name f)) \<and>
                                    \<not> resolutionFails env k p (item_name f)) fs) \<and>
   existingCount (scanLoop env taskId k p c names n i fs st) =
     existingCount st + length (filter (\<lambda>f. \<not> c \<and> has names (item_name f)) fs) \<and>
   errorCount (scanLoop env taskId k p c names n i fs st) =
     errorCount st + length (filter (\<lambda>f. (c \<or> \<not> has names (item_name f)) \<and>
                                      resolutionFails env k p (item_name f)) fs)"
proof (induction fs arbitrary: i st)
  case Nil
  then show ?case by simp
next
  case (Cons folder rest)
  let ?st1 = "processFolder env taskId k p c names n i folder st"
  from processFolder_counters [of env taskId k p c names n i folder st]
  have "newCount ?st1 = newCount st + (if (c \<or> \<not> has names (item_name folder)) \<and>
            \<not> resolutionFails env k p (item_name folder) then 1 else 0)"
    "existingCount ?st1 = existingCount st + (if \<not> c \<and> has names (item_name folder) then 1 else 0)"
    "errorCount ?st1 = errorCount st + (if (c \<or> \<not> has names (item_name folder)) \<and>
            resolutionFails env k p (item_name folder) then 1 else 0)"
    by (auto split: if_splits)
  then show ?case using Cons.IH [of "i + 1" ?st1] by auto
qed

lemma has_folderNameToKey:
  "has (folderNameToKey m) nm = (\<exists>key e. (key, e) \<in> set (folders m) \<and> folderName e = nm)"
  by (force simp add: has_def folderNameToKey_def image_iff split_beta)

text \<open>
  C2. In a scan with \<open>clearMetaInfo = False\<close>, for a remote folder whose name is the
  \<open>folderName\<close> of an entry of the loaded index, the iteration makes one call, the
  progress report, and no search call; it leaves the index as it is and adds one to the
  count of existing folders. Moreover, when the key generator never returns one of the
  existing keys, the whole loop leaves what the loaded index holds under every one of its
  keys unchanged.
\<close>

theorem existing_folder_skipped:
  assumes keep: "\<not> clearMetaInfo"
    and entry: "(key, e) \<in> set (folders m)"
    and name: "folderName e = item_name folder"
  shows "processFolder env taskId tmdbApiKey tmdbProxy clearMetaInfo (folderNameToKey m) n i
           folder st =
         st\<lparr>existingCount := existingCount st + 1,
            lcalls := lcalls st @
              [UpdateScanTaskProgress taskId (i + 1) n (Some (item_name folder))]\<rparr> \<and>
         ((\<forall>nm ks. generateFolderKey env nm ks \<notin> set ks) \<longrightarrow>
          map_of (folders (metaInfo
            (scanLoop env taskId tmdbApiKey tmdbProxy clearMetaInfo (folderNameToKey m)
               (length fs) 0 fs (initialScanState m cs)))) key = map_of (folders m) key)"
proof -
  have "has (folderNameToKey m) (item_name folder)"
    using entry name by (auto simp add: has_folderNameToKey)
  then have first: "processFolder env taskId tmdbApiKey tmdbProxy clearMetaInfo (folderNameToKey m)
           n i folder st =
         st\<lparr>existingCount := existingCount st + 1,
            lcalls := lcalls st @
              [UpdateScanTaskProgress taskId (i + 1) n (Some (item_name folder))]\<rparr>"
    using keep by (simp add: processFolder_existing)
  have "key \<in> set (existingKeys (initialScanState m cs))"
    using entry by (force simp add: initialScanState_def)
  then have "(\<forall>nm ks. generateFolderKey env nm ks \<notin> set ks) \<longrightarrow>
          map_of (folders (metaInfo
            (scanLoop env taskId tmdbApiKey tmdbProxy clearMetaInfo (folderNameToKey m)
               (length fs) 0 fs (initialScanState m cs)))) key =
          map_of (folders (metaInfo (initialScanState m cs))) key"
    using scanLoop_keeps by blast
  then show ?thesis using first by (simp add: initialScanState_def)
qed

lemma length_le_concat: "x \<in> set ks \<Longrightarrow> length x \<le> length (concat ks)"
  by (induction ks) auto

lemma suffixKey_fresh: "suffixKey nm ks \<notin> set ks"
proof
  assume "suffixKey nm ks \<in> set ks"
  then have "length (suffixKey nm ks) \<le> length (concat ks)"
    by (rule length_le_concat)
  then show False by (simp add: suffixKey_def)
qed

theorem existing_folder_skipped_witness:
  "processFolder (sampleEnv []) ''t'' ''key'' None False (folderNameToKey sampleIndex) 2 0
     (dir ''Movie B'') (initialScanState sampleIndex []) =
   (initialScanState sampleIndex [])
     \<lparr>existingCount := existingCount (initialScanState sampleIndex []) + 1,
      lcalls := lcalls (initialScanState sampleIndex []) @
        [UpdateScanTaskProgress ''t'' (0 + 1) 2 (Some (item_name (dir ''Movie B'')))]\<rparr> \<and>
   map_of (folders (metaInfo
     (scanLoop (sampleEnv []) ''t'' ''key'' None False (folderNameToKey sampleIndex)
        (length [dir ''Movie B'', dir ''Nope'']) 0 [dir ''Movie B'', dir ''Nope'']
        (initialScanState sampleIndex [])))) ''k1'' = map_of (folders sampleIndex) ''k1''"
proof -
  have keep: "\<not> False" by simp
  have entry: "(''k1'', placeholder ''Movie B'' 7) \<in> set (folders sampleIndex)"
    by (simp add: sampleIndex_def)
  have name: "folderName (placeholder ''Movie B'' 7) = item_name (dir ''Movie B'')"
    by (simp add: placeholder_def dir_def)
  have fresh: "\<forall>nm ks. generateFolderKey (sampleEnv []) nm ks \<notin> set ks"
    by (simp add: sampleEnv_def suffixKey_fresh)
  from existing_folder_skipped [OF keep entry name, of "sampleEnv []" "''t''" "''key''" None 2 0
      "initialScanState sampleIndex []" "[dir ''Movie B'', dir ''Nope'']" "[]"] fresh
  show ?thesis by blast
qed

text \<open>
  C3. Every entry that the loop over the folders adds to the index or changes in it obeys
  the invariant: if \<open>failed\<close> is true, then \<open>tmdb_id = 0\<close> and \<open>overview\<close> is empty.
  And for a folder that is resolved, when the resolution fails (the parser or the search
  throws, or the search does not answer with code 200 and a result), the entry written
  under the folder's key has \<open>failed = True\<close>, \<open>tmdb_id = 0\<close> and an empty overview;
  when it does not fail, the entry has \<open>failed = False\<close>.
\<close>

theorem failed_entries_invariant:
  "(map_of (folders (metaInfo
       (scanLoop env taskId tmdbApiKey tmdbProxy clearMetaInfo nameToKey n i fs st))) key = Some e \<and>
    map_of (folders (metaInfo st)) key \<noteq> Some e \<and> failed e
    \<longrightarrow> tmdb_id e = 0 \<and> overview e = []) \<and>
   (clearMetaInfo \<or> \<not> has nameToKey (item_name folder)
    \<longrightarrow> (\<exists>e1. map_of (folders (metaInfo
            (processFolder env taskId tmdbApiKey tmdbProxy clearMetaInfo nameToKey n i folder st1)))
            (generateFolderKey env (item_name folder) (existingKeys st1)) = Some e1 \<and>
          failed e1 = resolutionFails env tmdbApiKey tmdbProxy (item_name folder) \<and>
          (failed e1 \<longrightarrow> tmdb_id e1 = 0 \<and> overview e1 = [])))"
proof (intro conjI impI)
  assume "map_of (folders (metaInfo
       (scanLoop env taskId tmdbApiKey tmdbProxy clearMetaInfo nameToKey n i fs st))) key = Some e \<and>
    map_of (folders (metaInfo st)) key \<noteq> Some e \<and> failed e"
  then show "tmdb_id e = 0" "overview e = []"
    using scanLoop_entries [of env taskId tmdbApiKey tmdbProxy clearMetaInfo nameToKey n i fs st key e]
    by blast+
next
  assume new: "clearMetaInfo \<or> \<not> has nameToKey (item_name folder)"
  let ?st2 = "processFolder env taskId tmdbApiKey tmdbProxy clearMetaInfo nameToKey n i folder st1"
  let ?key = "generateFolderKey env (item_name folder) (existingKeys st1)"
  show "\<exists>e1. map_of (folders (metaInfo ?st2)) ?key = Some e1 \<and>
          failed e1 = resolutionFails env tmdbApiKey tmdbProxy (item_name folder) \<and>
          (failed e1 \<longrightarrow> tmdb_id e1 = 0 \<and> overview e1 = [])"
  proof (cases rule: processFolder_cases
      [of clearMetaInfo nameToKey folder env taskId tmdbApiKey tmdbProxy n i st1])
    case existing
    then show ?thesis using new by blast
  next
    case (resolved fi b cs)
    from tryResolve_entry [OF resolved(2)] tryResolve_fails [OF resolved(2)]
    have "failed fi = resolutionFails env tmdbApiKey tmdbProxy (item_name folder) \<and>
          (failed fi \<longrightarrow> tmdb_id fi = 0 \<and> overview fi = [])"
      by (cases b) (auto simp add: placeholder_fields)
    then show ?thesis by (simp add: resolved(3) map_of_setFolder)
  next
    case (caught e' cs)
    from tryResolve_caught [OF caught(2)]
    show ?thesis by (simp add: caught(3) map_of_setFolder placeholder_fields)
  qed
qed

theorem failed_entries_invariant_witness:
  "map_of (folders (metaInfo
      (scanLoop (sampleEnv []) ''t'' ''key'' None False [] 1 0 [dir ''Nope'']
         (initialScanState (emptyMetaInfo 0) [])))) ''Nope#'' = Some (placeholder ''Nope'' 2) \<and>
   map_of (folders (metaInfo (initialScanState (emptyMetaInfo 0) []))) ''Nope#'' \<noteq>
     Some (placeholder ''Nope'' 2) \<and>
   failed (placeholder ''Nope'' 2) \<and>
   tmdb_id (placeholder ''Nope'' 2) = 0 \<and> overview (placeholder ''Nope'' 2) = [] \<and>
   resolutionFails (sampleEnv []) ''key'' None (item_name (dir ''Offline'')) \<and>
   (\<exists>e1. map_of (folders (metaInfo
            (processFolder (sampleEnv []) ''t'' ''key'' None False [] 1 0 (dir ''Offline'')
               (initialScanState (emptyMetaInfo 0) []))))
            (generateFolderKey (sampleEnv []) (item_name (dir ''Offline''))
               (existingKeys (initialScanState (emptyMetaInfo 0) []))) = Some e1 \<and>
          failed e1 \<and> tmdb_id e1 = 0 \<and> overview e1 = [])"
proof -
  have h1: "map_of (folders (metaInfo
      (scanLoop (sampleEnv []) ''t'' ''key'' None False [] 1 0 [dir ''Nope'']
         (initialScanState (emptyMetaInfo 0) [])))) ''Nope#'' = Some (placeholder ''Nope'' 2)"
    by (simp add: sample_defs folder_defs Let_def update_conv')
  have h2: "map_of (folders (metaInfo (initialScanState (emptyMetaInfo 0) []))) ''Nope#'' \<noteq>
     Some (placeholder ''Nope'' 2)"
    by (simp add: initialScanState_def emptyMetaInfo_def)
  have h3: "failed (placeholder ''Nope'' 2)" by (simp add: placeholder_def)
  have h4: "False \<or> \<not> has [] (item_name (dir ''Offline''))" by (simp add: has_def)
  have h5: "resolutionFails (sampleEnv []) ''key'' None (item_name (dir ''Offline''))"
    by (simp add: resolutionFails_def sample_defs truthy_num_def)
  from failed_entries_invariant [where env = "sampleEnv []" and taskId = "''t''"
      and tmdbApiKey = "''key''" and tmdbProxy = None and clearMetaInfo = False
      and nameToKey = "[]" and n = 1 and i = 0 and fs = "[dir ''Nope'']"
      and st = "initialScanState (emptyMetaInfo 0) []" and key = "''Nope#''"
      and e = "placeholder ''Nope'' 2" and folder = "dir ''Offline''"
      and ?st1.0 = "initialScanState (emptyMetaInfo 0) []"] h1 h2 h3 h4 h5
  show ?thesis by blast
qed

subsection \<open>The listing loop\<close>

lemma listLoop_step:
  assumes "listDirectory env c r p 100 True = Inr resp" "code resp = 200"
    "filter is_dir (content (data resp)) = page"
  shows "listLoop (Suc fuel) env c r cs acc p =
     (if total (data resp) \<le> int (length (acc @ page))
      then Some (cs @ [ListDirectory c r p 100 True], Inr (acc @ page))
      else listLoop fuel env c r (cs @ [ListDirectory c r p 100 True]) (acc @ page) (p + 1))"
  using assms by (simp add: Let_def)

lemma listLoop_prefix:
  "listLoop fuel env c r cs acc p =
     map_option (\<lambda>(evs, res). (cs @ evs, res)) (listLoop fuel env c r [] acc p)"
proof (induction fuel arbitrary: cs acc p)
  case 0
  then show ?case by simp
next
  case (Suc fuel)
  show ?case
  proof (cases "listDirectory env c r p 100 True")
    case (Inl msg)
    then show ?thesis by simp
  next
    case (Inr resp)
    show ?thesis
    proof (cases "code resp \<noteq> 200")
      case True
      then show ?thesis using Inr by simp
    next
      case ok: False
      show ?thesis
      proof (cases "int (length (acc @ filter is_dir (content (data resp)))) \<ge> total (data resp)")
        case True
        then show ?thesis using Inr ok by (simp add: Let_def)
      next
        case False
        have a: "listLoop (Suc fuel) env c r cs acc p =
            listLoop fuel env c r (cs @ [ListDirectory c r p 100 True])
              (acc @ filter is_dir (content (data resp))) (p + 1)"
          using Inr ok False by (simp add: Let_def)
        have b: "listLoop (Suc fuel) env c r [] acc p =
            listLoop fuel env c r [ListDirectory c r p 100 True]
              (acc @ filter is_dir (content (data resp))) (p + 1)"
          using Inr ok False by (simp add: Let_def)
        show ?thesis
          unfolding a b
          using Suc.IH [of "cs @ [ListDirectory c r p 100 True]"] Suc.IH [of "[ListDirectory c r p 100 True]"]
          by (simp add: option.map_comp comp_def split_beta)
      qed
    qed
  qed
qed

text \<open>What the loop has done when it leaves: it has fetched the pages \<open>p\<close> to
  \<open>p + k\<close>; all but the last answered with code 200.\<close>

lemma listLoop_result:
  assumes "listLoop fuel env c r cs acc p = Some (cs1, res)"
  shows "\<exists>k. k < fuel \<and>
     cs1 = cs @ map (\<lambda>q. ListDirectory c r q 100 True) [p..<p + Suc k] \<and>
     (\<forall>q. p \<le> q \<and> q < p + k \<longrightarrow>
        (\<exists>resp. listDirectory env c r q 100 True = Inr resp \<and> code resp = 200)) \<and>
     (case res of
        Inr fs \<Rightarrow> fs = acc @ dirsOfPages env c r p (Suc k) \<and>
          (\<exists>resp. listDirectory env c r (p + k) 100 True = Inr resp \<and> code resp = 200 \<and>
             total (data resp) \<le> int (length fs))
      | Inl e \<Rightarrow>
          (\<exists>msg. listDirectory env c r (p + k) 100 True = Inl msg \<and> e = Thrown msg) \<or>
          (e = ListFetchFailed \<and>
           (\<exists>resp. listDirectory env c r (p + k) 100 True = Inr resp \<and> code resp \<noteq> 200)))"
  using assms
proof (induction fuel arbitrary: cs acc p)
  case 0
  then show ?case by simp
next
  case (Suc fuel)
  show ?case
  proof (cases "listDirectory env c r p 100 True")
    case (Inl msg)
    then have "cs1 = cs @ [ListDirectory c r p 100 True]" "res = Inl (Thrown msg)"
      using Suc.prems by simp_all
    then show ?thesis using Inl by (intro exI [of _ 0]) auto
  next
    case (Inr resp)
    show ?thesis
    proof (cases "code resp \<noteq> 200")
      case True
      then have "cs1 = cs @ [ListDirectory c r p 100 True]" "res = Inl ListFetchFailed"
        using Suc.prems Inr by simp_all
      then show ?thesis using Inr True by (intro exI [of _ 0]) auto
    next
      case ok: False
      let ?acc1 = "acc @ filter is_dir (content (data resp))"
      have pd: "pageDirs env c r p = filter is_dir (content (data resp))"
        using Inr by (simp add: pageDirs_def)
      show ?thesis
      proof (cases "int (length ?acc1) \<ge> total (data resp)")
        case True
        then have "cs1 = cs @ [ListDirectory c r p 100 True]" "res = Inr ?acc1"
          using Suc.prems Inr ok by (simp_all add: Let_def)
        then show ?thesis using Inr ok True
          by (intro exI [of _ 0]) (auto simp add: dirsOfPages_def pd)
      next
        case False
        then have "listLoop fuel env c r (cs @ [ListDirectory c r p 100 True]) ?acc1 (p + 1) =
            Some (cs1, res)"
          using Suc.prems Inr ok by (simp add: Let_def)
        from Suc.IH [OF this] obtain k where k: "k < fuel"
          "cs1 = (cs @ [ListDirectory c r p 100 True]) @
             map (\<lambda>q. ListDirectory c r q 100 True) [p + 1..<p + 1 + Suc k]"
          "\<forall>q. p + 1 \<le> q \<and> q < p + 1 + k \<longrightarrow>
             (\<exists>resp. listDirectory env c r q 100 True = Inr resp \<and> code resp = 200)"
          "case res of
             Inr fs \<Rightarrow> fs = ?acc1 @ dirsOfPages env c r (p + 1) (Suc k) \<and>
               (\<exists>resp. listDirectory env c r (p + 1 + k) 100 True = Inr resp \<and> code resp = 200 \<and>
                  total (data resp) \<le> int (length fs))
           | Inl e \<Rightarrow>
               (\<exists>msg. listDirectory env c r (p + 1 + k) 100 True = Inl msg \<and> e = Thrown msg) \<or>
               (e = ListFetchFailed \<and>
                (\<exists>resp. listDirectory env c r (p + 1 + k) 100 True = Inr resp \<and> code resp \<noteq> 200))"
          by blast
        have upt: "[p..<p + Suc (Suc k)] = p # [p + 1..<p + 1 + Suc k]"
          by (simp add: upt_conv_Cons)
        have c1: "cs1 = cs @ map (\<lambda>q. ListDirectory c r q 100 True) [p..<p + Suc (Suc k)]"
          unfolding upt using k(2) by simp
        have c2: "\<forall>q. p \<le> q \<and> q < p + Suc k \<longrightarrow>
             (\<exists>resp. listDirectory env c r q 100 True = Inr resp \<and> code resp = 200)"
        proof (intro allI impI)
          fix q assume q: "p \<le> q \<and> q < p + Suc k"
          show "\<exists>resp. listDirectory env c r q 100 True = Inr resp \<and> code resp = 200"
          proof (cases "q = p")
            case True
            then show ?thesis using Inr ok by simp
          next
            case False
            then have "p + 1 \<le> q \<and> q < p + 1 + k" using q by simp
            then show ?thesis using k(3) by blast
          qed
        qed
        have dp: "dirsOfPages env c r p (Suc (Suc k)) =
            filter is_dir (content (data resp)) @ dirsOfPages env c r (p + 1) (Suc k)"
          unfolding dirsOfPages_def upt by (simp add: pd)
        have c3: "case res of
             Inr fs \<Rightarrow> fs = acc @ dirsOfPages env c r p (Suc (Suc k)) \<and>
               (\<exists>resp. listDirectory env c r (p + Suc k) 100 True = Inr resp \<and> code resp = 200 \<and>
                  total (data resp) \<le> int (length fs))
           | Inl e \<Rightarrow>
               (\<exists>msg. listDirectory env c r (p + Suc k) 100 True = Inl msg \<and> e = Thrown msg) \<or>
               (e = ListFetchFailed \<and>
                (\<exists>resp. listDirectory env c r (p + Suc k) 100 True = Inr resp \<and> code resp \<noteq> 200))"
          using k(4) by (cases res) (simp_all add: dp)
        show ?thesis
          using k(1) c1 c2 c3 by (intro exI [of _ "Suc k"]) simp
      qed
    qed
  qed
qed

text \<open>With enough fuel the loop reaches a page that answers with another code than 200,
  and throws there.\<close>

lemma dirsOfPages_Suc:
  "dirsOfPages env c r 1 (Suc k) = dirsOfPages env c r 1 k @ pageDirs env c r (Suc k)"
  by (simp add: dirsOfPages_def)

lemma listLoop_reaches_failure:
  assumes resp: "listDirectory env c r q 100 True = Inr listResponse"
    and code: "code listResponse \<noteq> 200"
  shows "(\<forall>j. p \<le> j \<and> j < q \<longrightarrow> pageContinues env c r j) \<Longrightarrow>
         acc = dirsOfPages env c r 1 (p - 1) \<Longrightarrow> 1 \<le> p \<Longrightarrow> p \<le> q \<Longrightarrow> q - p < fuel \<Longrightarrow>
         listLoop fuel env c r cs acc p =
           Some (cs @ map (\<lambda>j. ListDirectory c r j 100 True) [p..<Suc q], Inl ListFetchFailed)"
proof (induction fuel arbitrary: p acc cs)
  case 0
  then show ?case by simp
next
  case (Suc fuel)
  show ?case
  proof (cases "p = q")
    case True
    then show ?thesis using resp code by simp
  next
    case False
    then have lt: "p < q" using Suc.prems(4) by simp
    then have "pageContinues env c r p" using Suc.prems(1) by simp
    then obtain rp where rp: "listDirectory env c r p 100 True = Inr rp" "code rp = 200"
      "int (length (dirsOfPages env c r 1 p)) < total (data rp)"
      by (auto simp add: pageContinues_def split: sum.splits)
    have pd: "pageDirs env c r p = filter is_dir (content (data rp))"
      using rp(1) by (simp add: pageDirs_def)
    have "dirsOfPages env c r 1 p = dirsOfPages env c r 1 (p - 1) @ pageDirs env c r p"
      using Suc.prems(3) dirsOfPages_Suc [of env c r "p - 1"] by simp
    then have acc1: "acc @ filter is_dir (content (data rp)) = dirsOfPages env c r 1 (p + 1 - 1)"
      using Suc.prems(2) pd by simp
    have "\<not> total (data rp) \<le> int (length (acc @ filter is_dir (content (data rp))))"
      unfolding acc1 using rp(3) by simp
    then have step: "listLoop (Suc fuel) env c r cs acc p =
        listLoop fuel env c r (cs @ [ListDirectory c r p 100 True])
          (acc @ filter is_dir (content (data rp))) (p + 1)"
      using listLoop_step [OF rp(1,2) refl, of fuel cs acc] by (simp only: if_False)
    have "listLoop fuel env c r (cs @ [ListDirectory c r p 100 True])
          (acc @ filter is_dir (content (data rp))) (p + 1) =
        Some ((cs @ [ListDirectory c r p 100 True]) @
                map (\<lambda>j. ListDirectory c r j 100 True) [p + 1..<Suc q], Inl ListFetchFailed)"
    proof (rule Suc.IH [OF _ acc1])
      show "\<forall>j. p + 1 \<le> j \<and> j < q \<longrightarrow> pageContinues env c r j"
        using Suc.prems(1) by simp
      show "1 \<le> p + 1" by simp
      show "p + 1 \<le> q" using lt by simp
      show "q - (p + 1) < fuel" using Suc.prems(5) lt by simp
    qed
    moreover have "[p..<Suc q] = p # [p + 1..<Suc q]"
      using lt by (simp add: upt_conv_Cons)
    ultimately show ?thesis unfolding step by simp
  qed
qed

subsection \<open>The scan as a whole\<close>

text \<open>The calls before the listing: lines 82, 94 and 112.\<close>

lemma logCall_fields:
  "store (logCall e w) = store w" "cache (logCall e w) = cache w"
  "calls (logCall e w) = calls w @ [e]"
  by (simp_all add: logCall_def)

lemma loadMetaInfo_world:
  "snd (loadMetaInfo env c w) = (if c then w else logCall (GetGlobalValue metainfoKey) w)"
  by (simp add: loadMetaInfo_def Let_def split: option.splits sum.splits)

lemma loadedIndex_error:
  "loadedIndex env taskId c w = Inl e \<Longrightarrow> e = Thrown ''TypeError''"
  by (auto simp add: loadedIndex_def indexOf_def split: parsed.splits if_splits)

lemma performScan_unfold:
  "performScan env fuel taskId u rootPath k p un pw c w =
     (let w2 = w\<lparr>cache := (cache w)(rootPath := None),
                 calls := calls w @ prelude taskId rootPath c\<rparr>
      in case listLoop fuel env \<lparr>url = u, username = un, password = pw\<rparr> rootPath [] [] 1 of
           None \<Rightarrow> None
         | Some (evs, Inl e) \<Rightarrow>
             Some (Inl e, w2\<lparr>calls := calls w2 @ evs @ [FailScanTask taskId e]\<rparr>)
         | Some (evs, Inr fs) \<Rightarrow>
             (case loadedIndex env taskId c w of
                Inl e \<Rightarrow>
                  Some (Inl e, w2\<lparr>calls := calls w2 @ evs @
                    [UpdateScanTaskProgress taskId 0 (length fs) None, FailScanTask taskId e]\<rparr>)
              | Inr m \<Rightarrow>
                  let st = scanLoop env taskId k p c (folderNameToKey m) (length fs) 0 fs
                             (initialScanState m
                                (calls w2 @ evs @ [UpdateScanTaskProgress taskId 0 (length fs) None]))
                  in Some (persist env taskId rootPath (length fs) st (w2\<lparr>calls := lcalls st\<rparr>))))"
proof -
  let ?w0 = "logCall (UpdateScanTaskProgress taskId 0 0 None) w"
  let ?w2 = "invalidateMetaInfoCache rootPath (snd (loadMetaInfo env c ?w0))"
  have w2: "?w2 = w\<lparr>cache := (cache w)(rootPath := None), calls := calls w @ prelude taskId rootPath c\<rparr>"
    by (simp add: loadMetaInfo_world invalidateMetaInfoCache_def logCall_def prelude_def)
  show ?thesis
    unfolding performScan_def Let_def split_beta w2 loadedIndex_def
    by (subst listLoop_prefix)
       (simp add: failScan_def logCall_def split_beta split: option.splits sum.splits)
qed

lemma persist_calls:
  "\<exists>evs. calls (snd (persist env taskId rootPath n st w)) = calls w @ evs \<and>
     (\<forall>e\<in>set evs. \<not> isListDirectory e \<and> \<not> isProgress e \<and> \<not> isResolving e)"
  by (simp add: persist_def Let_def failScan_def logCall_def invalidateMetaInfoCache_def
      setCachedMetaInfo_def split: option.splits sum.splits)

lemma persist_completed:
  assumes "fst (persist env taskId rootPath n st w) = Inr ()"
  shows "last (calls (snd (persist env taskId rootPath n st w))) =
     CompleteScanTask taskId \<lparr>res_total = n, res_new = newCount st,
        res_existing = existingCount st, res_errors = errorCount st\<rparr>"
  using assms
  by (auto simp add: persist_def Let_def failScan_def logCall_def invalidateMetaInfoCache_def
      setCachedMetaInfo_def split: option.splits sum.splits)

lemma newCalls_append: "calls w1 = calls w @ xs \<Longrightarrow> newCalls w w1 = xs"
  by (simp add: newCalls_def)

lemma prelude_calls:
  "\<forall>e\<in>set (prelude taskId rootPath c).
     \<not> isListDirectory e \<and> \<not> isSetGlobalValue e \<and> \<not> isSetCachedMetaInfo e"
  by (simp add: prelude_def)

lemma scanLoop_log:
  "\<exists>evs. lcalls (scanLoop env taskId k p c names n i fs st) = lcalls st @ evs \<and>
     (\<forall>e\<in>set evs. isScanCall e)"
proof (induction fs arbitrary: i st)
  case Nil
  then show ?case by simp
next
  case (Cons folder rest)
  let ?st1 = "processFolder env taskId k p c names n i folder st"
  obtain evs where evs: "lcalls ?st1 =
      lcalls st @ UpdateScanTaskProgress taskId (i + 1) n (Some (item_name folder)) # evs"
    "\<forall>e\<in>set evs. isResolving e"
    using processFolder_calls by blast
  obtain evs1 where evs1: "lcalls (scanLoop env taskId k p c names n (i + 1) rest ?st1) =
      lcalls ?st1 @ evs1" "\<forall>e\<in>set evs1. isScanCall e"
    using Cons.IH by blast
  have "lcalls (scanLoop env taskId k p c names n i (folder # rest) st) =
      lcalls st @ (UpdateScanTaskProgress taskId (i + 1) n (Some (item_name folder)) # evs @ evs1)"
    using evs(1) evs1(1) by simp
  moreover have "\<forall>e\<in>set (UpdateScanTaskProgress taskId (i + 1) n (Some (item_name folder)) #
      evs @ evs1). isScanCall e"
    using evs(2) evs1(2) by (auto simp add: isScanCall_def)
  ultimately show ?case by blast
qed

lemma isScanCall_not_list:
  "isScanCall e \<Longrightarrow> \<not> isListDirectory e \<and> \<not> isSetGlobalValue e \<and> \<not> isSetCachedMetaInfo e"
  by (cases e) (simp_all add: isScanCall_def)

lemma persist_error:
  assumes "fst (persist env taskId rootPath n st w) = Inl e"
  shows "\<exists>msg. e = Thrown msg"
  using assms
  by (auto simp add: persist_def Let_def failScan_def split: option.splits sum.splits)

text \<open>The outcomes of a scan, by the outcome of the listing.\<close>

lemma performScan_cases:
  assumes run: "performScan env fuel taskId u rootPath k p un pw c w = Some (r, w1)"
  obtains (listing_failed) evs e where
      "listLoop fuel env \<lparr>url = u, username = un, password = pw\<rparr> rootPath [] [] 1 =
         Some (evs, Inl e)"
      "r = Inl e"
      "w1 = w\<lparr>cache := (cache w)(rootPath := None),
              calls := calls w @ prelude taskId rootPath c @ evs @ [FailScanTask taskId e]\<rparr>"
  | (malformed) evs fs where
      "listLoop fuel env \<lparr>url = u, username = un, password = pw\<rparr> rootPath [] [] 1 =
         Some (evs, Inr fs)"
      "loadedIndex env taskId c w = Inl (Thrown ''TypeError'')"
      "r = Inl (Thrown ''TypeError'')"
      "w1 = w\<lparr>cache := (cache w)(rootPath := None),
              calls := calls w @ prelude taskId rootPath c @ evs @
                [UpdateScanTaskProgress taskId 0 (length fs) None,
                 FailScanTask taskId (Thrown ''TypeError'')]\<rparr>"
  | (listed) evs fs scan post m where
      "listLoop fuel env \<lparr>url = u, username = un, password = pw\<rparr> rootPath [] [] 1 =
         Some (evs, Inr fs)"
      "(r, w1) = persist env taskId rootPath (length fs)
         (scanLoop env taskId k p c (folderNameToKey m) (length fs) 0 fs
            (initialScanState m
               (calls w @ prelude taskId rootPath c @ evs @
                  [UpdateScanTaskProgress taskId 0 (length fs) None])))
         (w\<lparr>cache := (cache w)(rootPath := None),
            calls := calls w @ prelude taskId rootPath c @ evs @
              [UpdateScanTaskProgress taskId 0 (length fs) None] @ scan\<rparr>)"
      "lcalls (scanLoop env taskId k p c (folderNameToKey m) (length fs) 0 fs
            (initialScanState m
               (calls w @ prelude taskId rootPath c @ evs @
                  [UpdateScanTaskProgress taskId 0 (length fs) None]))) =
         calls w @ prelude taskId rootPath c @ evs @
           [UpdateScanTaskProgress taskId 0 (length fs) None] @ scan"
      "\<forall>e\<in>set scan. isScanCall e"
      "calls w1 = calls w @ prelude taskId rootPath c @ evs @
              [UpdateScanTaskProgress taskId 0 (length fs) None] @ scan @ post"
      "\<forall>e\<in>set post. \<not> isListDirectory e \<and> \<not> isProgress e \<and> \<not> isResolving e"
      "loadedIndex env taskId c w = Inr m"
proof -
  let ?cl = "\<lparr>url = u, username = un, password = pw\<rparr>"
  obtain evs res where ll: "listLoop fuel env ?cl rootPath [] [] 1 = Some (evs, res)"
    using run by (cases "listLoop fuel env ?cl rootPath [] [] 1") (auto simp add: performScan_unfold)
  show ?thesis
  proof (cases res)
    case (Inl e)
    then show ?thesis
      using run ll listing_failed [of evs e] by (simp add: performScan_unfold)
  next
    case (Inr fs)
    show ?thesis
    proof (cases "loadedIndex env taskId c w")
      case bad: (Inl e)
      then have e: "e = Thrown ''TypeError''" by (rule loadedIndex_error)
      show ?thesis
        using run ll Inr bad malformed [of evs fs] unfolding e
        by (simp add: performScan_unfold)
    next
      case ok: (Inr m)
      let ?cs = "calls w @ prelude taskId rootPath c @ evs @
                    [UpdateScanTaskProgress taskId 0 (length fs) None]"
      let ?st = "scanLoop env taskId k p c (folderNameToKey m) (length fs) 0 fs
                   (initialScanState m ?cs)"
      obtain scan where scan: "lcalls ?st = lcalls (initialScanState m ?cs) @ scan"
        "\<forall>e\<in>set scan. isScanCall e"
        using scanLoop_log by blast
      then have lc: "lcalls ?st = ?cs @ scan" by (simp add: initialScanState_def)
      let ?w3 = "w\<lparr>cache := (cache w)(rootPath := None), calls := ?cs @ scan\<rparr>"
      have res: "(r, w1) = persist env taskId rootPath (length fs) ?st ?w3"
        using run ll Inr ok lc by (simp add: performScan_unfold Let_def)
      obtain post where post: "calls (snd (persist env taskId rootPath (length fs) ?st ?w3)) =
          calls ?w3 @ post"
        "\<forall>e\<in>set post. \<not> isListDirectory e \<and> \<not> isProgress e \<and> \<not> isResolving e"
        using persist_calls by blast
      have "w1 = snd (persist env taskId rootPath (length fs) ?st ?w3)"
        using res by (metis snd_conv)
      then have "calls w1 = ?cs @ scan @ post"
        using post(1) by simp
      then show ?thesis
        using listed [of evs fs m scan post] ll Inr ok res lc scan(2) post(2) by simp
    qed
  qed
qed


lemma listing_failure_run:
  assumes run: "performScan env fuel taskId u rootPath k p un pw c w = Some (r, w1)"
    and page: "ListDirectory \<lparr>url = u, username = un, password = pw\<rparr> rootPath q 100 True
                 \<in> set (newCalls w w1)"
    and resp: "listDirectory env \<lparr>url = u, username = un, password = pw\<rparr> rootPath q 100 True =
                 Inr listResponse"
    and code: "code listResponse \<noteq> 200"
  shows "r = Inl ListFetchFailed \<and> store w1 = store w \<and>
         last (calls w1) = FailScanTask taskId ListFetchFailed \<and>
         (\<forall>e\<in>set (newCalls w w1). \<not> isSetGlobalValue e)"
proof -
  let ?cl = "\<lparr>url = u, username = un, password = pw\<rparr>"
  let ?page = "ListDirectory ?cl rootPath q 100 True"
  have pre: "?page \<notin> set (prelude taskId rootPath c)"
    using prelude_calls by fastforce
  from run show ?thesis
  proof (cases rule: performScan_cases)
    case (listing_failed evs e)
    from listLoop_result [OF listing_failed(1)] obtain kk where
      evs: "evs = map (\<lambda>q. ListDirectory ?cl rootPath q 100 True) [1..<1 + Suc kk]"
      and ok: "\<forall>q. 1 \<le> q \<and> q < 1 + kk \<longrightarrow>
         (\<exists>resp. listDirectory env ?cl rootPath q 100 True = Inr resp \<and> code resp = 200)"
      and last: "(\<exists>msg. listDirectory env ?cl rootPath (1 + kk) 100 True = Inl msg \<and> e = Thrown msg) \<or>
          (e = ListFetchFailed \<and>
           (\<exists>resp. listDirectory env ?cl rootPath (1 + kk) 100 True = Inr resp \<and> code resp \<noteq> 200))"
      by auto
    have new: "newCalls w w1 = prelude taskId rootPath c @ evs @ [FailScanTask taskId e]"
      by (rule newCalls_append) (simp add: listing_failed(3))
    have "?page \<in> set evs" using page pre by (simp add: new)
    then have q: "1 \<le> q \<and> q < 1 + Suc kk" by (auto simp add: evs)
    have "\<not> q < 1 + kk" using ok q resp code by fastforce
    then have "q = 1 + kk" using q by simp
    then have e: "e = ListFetchFailed" using last resp by auto
    have "\<forall>e\<in>set (newCalls w w1). \<not> isSetGlobalValue e"
      using prelude_calls [of taskId rootPath c] by (auto simp add: new evs)
    then show ?thesis using e listing_failed(2,3) by simp
  next
    case (malformed evs fs)
    from listLoop_result [OF malformed(1)] obtain kk where
      evs: "evs = map (\<lambda>q. ListDirectory ?cl rootPath q 100 True) [1..<1 + Suc kk]"
      and ok: "\<forall>q. 1 \<le> q \<and> q < 1 + kk \<longrightarrow>
         (\<exists>resp. listDirectory env ?cl rootPath q 100 True = Inr resp \<and> code resp = 200)"
      and last: "\<exists>resp. listDirectory env ?cl rootPath (1 + kk) 100 True = Inr resp \<and> code resp = 200"
      by auto
    have new: "newCalls w w1 = prelude taskId rootPath c @ evs @
              [UpdateScanTaskProgress taskId 0 (length fs) None,
               FailScanTask taskId (Thrown ''TypeError'')]"
      by (rule newCalls_append) (simp add: malformed(4))
    have "?page \<in> set evs" using page pre by (simp add: new)
    then have q: "1 \<le> q \<and> q < 1 + Suc kk" by (auto simp add: evs)
    have "\<not> q < 1 + kk" using ok q resp code by fastforce
    then have "q = 1 + kk" using q by simp
    then have False using last resp code by auto
    then show ?thesis ..
  next
    case (listed evs fs scan post m)
    from listLoop_result [OF listed(1)] obtain kk where
      evs: "evs = map (\<lambda>q. ListDirectory ?cl rootPath q 100 True) [1..<1 + Suc kk]"
      and ok: "\<forall>q. 1 \<le> q \<and> q < 1 + kk \<longrightarrow>
         (\<exists>resp. listDirectory env ?cl rootPath q 100 True = Inr resp \<and> code resp = 200)"
      and last: "\<exists>resp. listDirectory env ?cl rootPath (1 + kk) 100 True = Inr resp \<and> code resp = 200"
      by auto
    have new: "newCalls w w1 = prelude taskId rootPath c @ evs @
              [UpdateScanTaskProgress taskId 0 (length fs) None] @ scan @ post"
      by (rule newCalls_append) (simp add: listed(5))
    have "?page \<notin> set scan" using listed(4) isScanCall_not_list by fastforce
    moreover have "?page \<notin> set post" using listed(6) by fastforce
    ultimately have "?page \<in> set evs" using page pre by (simp add: new)
    then have q: "1 \<le> q \<and> q < 1 + Suc kk" by (auto simp add: evs)
    have "\<not> q < 1 + kk" using ok q resp code by fastforce
    then have "q = 1 + kk" using q by simp
    then have False using last resp code by auto
    then show ?thesis ..
  qed
qed

text \<open>
  C1. Let page \<open>q\<close> of the listing answer with a code other than 200. In every scan that
  requests page \<open>q\<close>, the scan rejects with the listing error, its last call is
  \<^verbatim>\<open>failScanTask\<close> with that error, \<^verbatim>\<open>db.setGlobalValue\<close> is not called, and the
  store is what it was before the scan. And the scan does request page \<open>q\<close> and reject
  so, given fuel for \<open>q\<close> pages, whenever the pages before \<open>q\<close> answer with code 200
  without ending the listing.
\<close>

theorem listing_failure_leaves_store:
  assumes resp: "listDirectory env \<lparr>url = u, username = un, password = pw\<rparr> rootPath q 100 True =
                   Inr listResponse"
    and code: "code listResponse \<noteq> 200"
  shows "(performScan env fuel taskId u rootPath k p un pw c w = Some (r, w1) \<and>
          ListDirectory \<lparr>url = u, username = un, password = pw\<rparr> rootPath q 100 True
            \<in> set (newCalls w w1)
          \<longrightarrow> r = Inl ListFetchFailed \<and> store w1 = store w \<and>
              last (calls w1) = FailScanTask taskId ListFetchFailed \<and>
              (\<forall>e\<in>set (newCalls w w1). \<not> isSetGlobalValue e)) \<and>
         ((\<forall>j. 1 \<le> j \<and> j < q \<longrightarrow>
             pageContinues env \<lparr>url = u, username = un, password = pw\<rparr> rootPath j) \<and>
          1 \<le> q \<and> q \<le> fuel
          \<longrightarrow> (\<exists>w2. performScan env fuel taskId u rootPath k p un pw c w =
                       Some (Inl ListFetchFailed, w2) \<and>
                    ListDirectory \<lparr>url = u, username = un, password = pw\<rparr> rootPath q 100 True
                      \<in> set (newCalls w w2) \<and>
                    store w2 = store w \<and>
                    last (calls w2) = FailScanTask taskId ListFetchFailed \<and>
                    (\<forall>e\<in>set (newCalls w w2). \<not> isSetGlobalValue e)))"
proof (intro conjI impI)
  assume "performScan env fuel taskId u rootPath k p un pw c w = Some (r, w1) \<and>
          ListDirectory \<lparr>url = u, username = un, password = pw\<rparr> rootPath q 100 True
            \<in> set (newCalls w w1)"
  then show "r = Inl ListFetchFailed" "store w1 = store w"
    "last (calls w1) = FailScanTask taskId ListFetchFailed"
    "\<forall>e\<in>set (newCalls w w1). \<not> isSetGlobalValue e"
    using listing_failure_run [OF _ _ resp code] by blast+
next
  let ?cl = "\<lparr>url = u, username = un, password = pw\<rparr>"
  let ?evs = "map (\<lambda>j. ListDirectory ?cl rootPath j 100 True) [1..<Suc q]"
  let ?w2 = "w\<lparr>cache := (cache w)(rootPath := None),
               calls := calls w @ prelude taskId rootPath c @ ?evs @
                 [FailScanTask taskId ListFetchFailed]\<rparr>"
  assume a: "(\<forall>j. 1 \<le> j \<and> j < q \<longrightarrow> pageContinues env ?cl rootPath j) \<and> 1 \<le> q \<and> q \<le> fuel"
  have "[] = dirsOfPages env ?cl rootPath 1 (1 - 1)" by (simp add: dirsOfPages_def)
  moreover have "q - 1 < fuel" using a by arith
  ultimately have "listLoop fuel env ?cl rootPath [] [] 1 = Some ([] @ ?evs, Inl ListFetchFailed)"
    using listLoop_reaches_failure [OF resp code, of 1 "[]" fuel "[]"] a by blast
  then have run: "performScan env fuel taskId u rootPath k p un pw c w =
      Some (Inl ListFetchFailed, ?w2)"
    by (simp add: performScan_unfold)
  have "newCalls w ?w2 = prelude taskId rootPath c @ ?evs @ [FailScanTask taskId ListFetchFailed]"
    by (rule newCalls_append) simp
  moreover have "ListDirectory ?cl rootPath q 100 True \<in> set ?evs" using a by simp
  ultimately have page: "ListDirectory ?cl rootPath q 100 True \<in> set (newCalls w ?w2)"
    by simp
  from listing_failure_run [OF run page resp code] run page
  show "\<exists>w2. performScan env fuel taskId u rootPath k p un pw c w =
                       Some (Inl ListFetchFailed, w2) \<and>
                    ListDirectory ?cl rootPath q 100 True \<in> set (newCalls w w2) \<and>
                    store w2 = store w \<and>
                    last (calls w2) = FailScanTask taskId ListFetchFailed \<and>
                    (\<forall>e\<in>set (newCalls w w2). \<not> isSetGlobalValue e)"
    by blast
qed

lemma failing_scan:
  "performScan failingEnv 2 ''t'' ''u'' ''/'' ''key'' None ''n'' ''p'' False cachedWorld =
     Some (Inl ListFetchFailed, failedWorld)"
  by (simp add: performScan_unfold failingEnv_def sampleEnv_def failingLister_def prelude_def
      cachedWorld_def sampleWorld_def failedWorld_def numeral_2_eq_2 dir_def)

theorem listing_failure_leaves_store_witness:
  "listDirectory failingEnv \<lparr>url = ''u'', username = ''n'', password = ''p''\<rparr> ''/'' 2 100 True =
     Inr \<lparr>code = 500, data = \<lparr>total = 0, content = []\<rparr>\<rparr> \<and>
   code \<lparr>code = 500, data = \<lparr>total = 0, content = []\<rparr>\<rparr> \<noteq> 200 \<and>
   pageContinues failingEnv \<lparr>url = ''u'', username = ''n'', password = ''p''\<rparr> ''/'' 1 \<and>
   performScan failingEnv 2 ''t'' ''u'' ''/'' ''key'' None ''n'' ''p'' False cachedWorld =
     Some (Inl ListFetchFailed, failedWorld) \<and>
   ListDirectory \<lparr>url = ''u'', username = ''n'', password = ''p''\<rparr> ''/'' 2 100 True
     \<in> set (newCalls cachedWorld failedWorld) \<and>
   store failedWorld = store cachedWorld \<and>
   last (calls failedWorld) = FailScanTask ''t'' ListFetchFailed \<and>
   filter isSetGlobalValue (newCalls cachedWorld failedWorld) = []"
proof -
  let ?cl = "\<lparr>url = ''u'', username = ''n'', password = ''p''\<rparr>"
  have resp: "listDirectory failingEnv ?cl ''/'' 2 100 True =
      Inr \<lparr>code = 500, data = \<lparr>total = 0, content = []\<rparr>\<rparr>"
    by (simp add: failingEnv_def sampleEnv_def failingLister_def)
  have code: "code \<lparr>code = 500, data = \<lparr>total = 0, content = []\<rparr>\<rparr> \<noteq> 200" by simp
  have first: "pageContinues failingEnv ?cl ''/'' 1"
    by (simp add: pageContinues_def dirsOfPages_def pageDirs_def failingEnv_def sampleEnv_def
        failingLister_def dir_def)
  then have pages: "\<forall>j. 1 \<le> j \<and> j < 2 \<longrightarrow> pageContinues failingEnv ?cl ''/'' j"
    by (metis One_nat_def Suc_1 le_antisym less_Suc_eq_le)
  from listing_failure_leaves_store [OF resp code, of 2 "''t''" "''key''" None False cachedWorld]
    pages failing_scan
  have "ListDirectory ?cl ''/'' 2 100 True \<in> set (newCalls cachedWorld failedWorld) \<and>
        store failedWorld = store cachedWorld \<and>
        last (calls failedWorld) = FailScanTask ''t'' ListFetchFailed \<and>
        (\<forall>e\<in>set (newCalls cachedWorld failedWorld). \<not> isSetGlobalValue e)"
    by auto
  then show ?thesis using resp code first failing_scan by (simp add: filter_empty_conv)
qed

lemma prelude_split:
  "\<exists>pre. prelude taskId rootPath c = pre @ [InvalidateMetaInfoCache rootPath] \<and>
     (\<forall>e\<in>set pre. \<not> isListDirectory e)"
  by (simp add: prelude_def)

text \<open>
  C10. In every scan, the cache entry of the root is invalidated before any listing page
  is requested. Hence in a scan that rejects with the listing error the cache holds
  nothing for the root afterwards and \<^verbatim>\<open>setCachedMetaInfo\<close> is not called, while the
  store is what it was before the scan.
\<close>

theorem cache_invalidated_before_listing:
  assumes run: "performScan env fuel taskId u rootPath k p un pw c w = Some (r, w1)"
  shows "(\<exists>pre post. newCalls w w1 = pre @ InvalidateMetaInfoCache rootPath # post \<and>
            (\<forall>e\<in>set pre. \<not> isListDirectory e)) \<and>
         (r = Inl ListFetchFailed \<longrightarrow>
            cache w1 rootPath = None \<and> store w1 = store w \<and>
            (\<forall>e\<in>set (newCalls w w1). \<not> isSetCachedMetaInfo e))"
proof -
  let ?cl = "\<lparr>url = u, username = un, password = pw\<rparr>"
  obtain pre where pre: "prelude taskId rootPath c = pre @ [InvalidateMetaInfoCache rootPath]"
    "\<forall>e\<in>set pre. \<not> isListDirectory e"
    using prelude_split by blast
  from run show ?thesis
  proof (cases rule: performScan_cases)
    case (listing_failed evs e)
    from listLoop_result [OF listing_failed(1)] obtain kk where
      evs: "evs = map (\<lambda>q. ListDirectory ?cl rootPath q 100 True) [1..<1 + Suc kk]"
      by auto
    have new: "newCalls w w1 = prelude taskId rootPath c @ evs @ [FailScanTask taskId e]"
      by (rule newCalls_append) (simp add: listing_failed(3))
    then have "newCalls w w1 = pre @ InvalidateMetaInfoCache rootPath # (evs @ [FailScanTask taskId e])"
      by (simp add: pre(1))
    then have first: "\<exists>pre post. newCalls w w1 = pre @ InvalidateMetaInfoCache rootPath # post \<and>
            (\<forall>e\<in>set pre. \<not> isListDirectory e)"
      using pre(2) by blast
    have "\<forall>e\<in>set (newCalls w w1). \<not> isSetCachedMetaInfo e"
      using prelude_calls [of taskId rootPath c] by (auto simp add: new evs)
    then show ?thesis using first listing_failed(3) by simp
  next
    case (malformed evs fs)
    have new: "newCalls w w1 = prelude taskId rootPath c @ evs @
              [UpdateScanTaskProgress taskId 0 (length fs) None,
               FailScanTask taskId (Thrown ''TypeError'')]"
      by (rule newCalls_append) (simp add: malformed(4))
    then have "newCalls w w1 = pre @ InvalidateMetaInfoCache rootPath #
        (evs @ [UpdateScanTaskProgress taskId 0 (length fs) None,
                FailScanTask taskId (Thrown ''TypeError'')])"
      by (simp add: pre(1))
    then have first: "\<exists>pre post. newCalls w w1 = pre @ InvalidateMetaInfoCache rootPath # post \<and>
            (\<forall>e\<in>set pre. \<not> isListDirectory e)"
      using pre(2) by blast
    then show ?thesis using malformed(3) by simp
  next
    case (listed evs fs scan post m)
    have new: "newCalls w w1 = prelude taskId rootPath c @ evs @
              [UpdateScanTaskProgress taskId 0 (length fs) None] @ scan @ post"
      by (rule newCalls_append) (simp add: listed(5))
    then have "newCalls w w1 = pre @ InvalidateMetaInfoCache rootPath #
        (evs @ [UpdateScanTaskProgress taskId 0 (length fs) None] @ scan @ post)"
      by (simp add: pre(1))
    then have first: "\<exists>pre post. newCalls w w1 = pre @ InvalidateMetaInfoCache rootPath # post \<and>
            (\<forall>e\<in>set pre. \<not> isListDirectory e)"
      using pre(2) by blast
    have "r = fst (persist env taskId rootPath (length fs)
         (scanLoop env taskId k p c (folderNameToKey m) (length fs) 0 fs
            (initialScanState m
               (calls w @ prelude taskId rootPath c @ evs @
                  [UpdateScanTaskProgress taskId 0 (length fs) None])))
         (w\<lparr>cache := (cache w)(rootPath := None),
            calls := calls w @ prelude taskId rootPath c @ evs @
              [UpdateScanTaskProgress taskId 0 (length fs) None] @ scan\<rparr>))"
      using listed(2) by (metis fst_conv)
    then have "r \<noteq> Inl ListFetchFailed"
      using persist_error by fastforce
    then show ?thesis using first by simp
  qed
qed

theorem cache_invalidated_before_listing_witness:
  "performScan failingEnv 2 ''t'' ''u'' ''/'' ''key'' None ''n'' ''p'' False cachedWorld =
     Some (Inl ListFetchFailed, failedWorld) \<and>
   cache cachedWorld ''/'' = Some sampleIndex \<and> cache failedWorld ''/'' = None \<and>
   store failedWorld = store cachedWorld \<and>
   filter isSetCachedMetaInfo (newCalls cachedWorld failedWorld) = []"
  using cache_invalidated_before_listing [OF failing_scan] failing_scan
  by (simp add: cachedWorld_def filter_empty_conv)

lemma filter_listing_calls:
  "filter isListDirectory (map (\<lambda>q. ListDirectory client rootPath q 100 True) qs) =
     map (\<lambda>q. ListDirectory client rootPath q 100 True) qs"
  by (induction qs) simp_all

lemma filter_none: "\<forall>e\<in>set xs. \<not> P e \<Longrightarrow> filter P xs = []"
  by (simp add: filter_empty_conv)

text \<open>
  C9. In every scan that completes, the last call is \<^verbatim>\<open>completeScanTask\<close> with these
  counts: total is the number of the directories \<open>fs\<close> of the pages 1 to \<open>pages\<close>, the
  pages that the scan has requested, the last of which reports a total that \<open>fs\<close> has
  reached; existing is the number of folders of \<open>fs\<close> that are skipped (the index is kept
  and holds an entry with the name of the folder), errors the number of the others whose
  resolution fails, new the number of the others whose resolution does not fail; and
  total = existing + new + errors. Every iteration of the loop adds one to exactly one of
  the three counters: to that of existing folders when the folder is skipped, else to that
  of errors when its resolution fails, else to that of new folders.
\<close>

theorem completed_scan_counts:
  assumes run: "performScan env fuel taskId u rootPath k p un pw c w = Some (Inr (), w1)"
  shows "(\<exists>pages fs m res.
            1 \<le> pages \<and>
            listLoop fuel env \<lparr>url = u, username = un, password = pw\<rparr> rootPath [] [] 1 =
              Some (map (\<lambda>q. ListDirectory \<lparr>url = u, username = un, password = pw\<rparr> rootPath q 100 True) [1..<Suc pages], Inr fs) \<and>
            filter isListDirectory (newCalls w w1) =
              map (\<lambda>q. ListDirectory \<lparr>url = u, username = un, password = pw\<rparr> rootPath q 100 True) [1..<Suc pages] \<and>
            fs = dirsOfPages env \<lparr>url = u, username = un, password = pw\<rparr> rootPath 1 pages \<and>
            (\<exists>resp. listDirectory env \<lparr>url = u, username = un, password = pw\<rparr> rootPath pages 100 True = Inr resp \<and>
               total (data resp) \<le> int (length fs)) \<and>
            loadedIndex env taskId c w = Inr m \<and>
            last (calls w1) = CompleteScanTask taskId res \<and>
            res_total res = length fs \<and>
            res_existing res =
              length (filter (\<lambda>f. \<not> c \<and> has (folderNameToKey m) (item_name f)) fs) \<and>
            res_new res =
              length (filter (\<lambda>f. (c \<or> \<not> has (folderNameToKey m) (item_name f)) \<and>
                               \<not> resolutionFails env k p (item_name f)) fs) \<and>
            res_errors res =
              length (filter (\<lambda>f. (c \<or> \<not> has (folderNameToKey m) (item_name f)) \<and>
                               resolutionFails env k p (item_name f)) fs) \<and>
            res_total res = res_existing res + res_new res + res_errors res) \<and>
         (newCount (processFolder env taskId k p c names n i folder st),
          existingCount (processFolder env taskId k p c names n i folder st),
          errorCount (processFolder env taskId k p c names n i folder st)) =
         (if \<not> c \<and> has names (item_name folder)
          then (newCount st, existingCount st + 1, errorCount st)
          else if resolutionFails env k p (item_name folder)
          then (newCount st, existingCount st, errorCount st + 1)
          else (newCount st + 1, existingCount st, errorCount st))"
proof (rule conjI)
  let ?cl = "\<lparr>url = u, username = un, password = pw\<rparr>"
  from run show "\<exists>pages fs m res.
            1 \<le> pages \<and>
            listLoop fuel env ?cl rootPath [] [] 1 =
              Some (map (\<lambda>q. ListDirectory ?cl rootPath q 100 True) [1..<Suc pages], Inr fs) \<and>
            filter isListDirectory (newCalls w w1) =
              map (\<lambda>q. ListDirectory ?cl rootPath q 100 True) [1..<Suc pages] \<and>
            fs = dirsOfPages env ?cl rootPath 1 pages \<and>
            (\<exists>resp. listDirectory env ?cl rootPath pages 100 True = Inr resp \<and>
               total (data resp) \<le> int (length fs)) \<and>
            loadedIndex env taskId c w = Inr m \<and>
            last (calls w1) = CompleteScanTask taskId res \<and>
            res_total res = length fs \<and>
            res_existing res =
              length (filter (\<lambda>f. \<not> c \<and> has (folderNameToKey m) (item_name f)) fs) \<and>
            res_new res =
              length (filter (\<lambda>f. (c \<or> \<not> has (folderNameToKey m) (item_name f)) \<and>
                               \<not> resolutionFails env k p (item_name f)) fs) \<and>
            res_errors res =
              length (filter (\<lambda>f. (c \<or> \<not> has (folderNameToKey m) (item_name f)) \<and>
                               resolutionFails env k p (item_name f)) fs) \<and>
            res_total res = res_existing res + res_new res + res_errors res"
  proof (cases rule: performScan_cases)
    case (listing_failed evs e)
    then show ?thesis by simp
  next
    case (malformed evs fs)
    then show ?thesis by simp
  next
    case (listed evs fs scan post m)
    let ?init = "initialScanState m (calls w @ prelude taskId rootPath c @ evs @
                  [UpdateScanTaskProgress taskId 0 (length fs) None])"
    let ?st = "scanLoop env taskId k p c (folderNameToKey m) (length fs) 0 fs ?init"
    let ?w3 = "w\<lparr>cache := (cache w)(rootPath := None),
            calls := calls w @ prelude taskId rootPath c @ evs @
              [UpdateScanTaskProgress taskId 0 (length fs) None] @ scan\<rparr>"
    let ?res = "\<lparr>res_total = length fs, res_new = newCount ?st,
        res_existing = existingCount ?st, res_errors = errorCount ?st\<rparr>"
    have ps: "persist env taskId rootPath (length fs) ?st ?w3 = (Inr (), w1)"
      using listed(2) by simp
    then have "fst (persist env taskId rootPath (length fs) ?st ?w3) = Inr ()" by simp
    then have "last (calls (snd (persist env taskId rootPath (length fs) ?st ?w3))) =
        CompleteScanTask taskId ?res"
      by (rule persist_completed)
    then have last: "last (calls w1) = CompleteScanTask taskId ?res"
      unfolding ps by simp
    from scanLoop_counters [of env taskId k p c "folderNameToKey m" "length fs" 0 fs ?init]
    have counts:
      "newCount ?st =
         length (filter (\<lambda>f. (c \<or> \<not> has (folderNameToKey m) (item_name f)) \<and>
                          \<not> resolutionFails env k p (item_name f)) fs)"
      "existingCount ?st =
         length (filter (\<lambda>f. \<not> c \<and> has (folderNameToKey m) (item_name f)) fs)"
      "errorCount ?st =
         length (filter (\<lambda>f. (c \<or> \<not> has (folderNameToKey m) (item_name f)) \<and>
                          resolutionFails env k p (item_name f)) fs)"
      by (simp_all add: initialScanState_def)
    have sum: "newCount ?st + existingCount ?st + errorCount ?st = length fs"
      by (simp add: scanLoop_counts initialScanState_def)
    from listLoop_result [OF listed(1)] obtain kk where
      evs: "evs = map (\<lambda>q. ListDirectory ?cl rootPath q 100 True) [1..<Suc (Suc kk)]"
      and fs: "fs = dirsOfPages env ?cl rootPath 1 (Suc kk)"
      and tot: "\<exists>resp. listDirectory env ?cl rootPath (Suc kk) 100 True = Inr resp \<and>
                  total (data resp) \<le> int (length fs)"
      by auto
    have new: "newCalls w w1 = prelude taskId rootPath c @ evs @
              [UpdateScanTaskProgress taskId 0 (length fs) None] @ scan @ post"
      by (rule newCalls_append) (simp add: listed(5))
    have "filter isListDirectory (prelude taskId rootPath c) = []"
      by (rule filter_none) (use prelude_calls in blast)
    moreover have "filter isListDirectory scan = []"
      by (rule filter_none) (use listed(4) isScanCall_not_list in blast)
    moreover have "filter isListDirectory post = []"
      by (rule filter_none) (use listed(6) in blast)
    moreover have "filter isListDirectory evs = evs"
      unfolding evs by (rule filter_listing_calls)
    ultimately have pages: "filter isListDirectory (newCalls w w1) = evs"
      by (simp add: new)
    have ll: "listLoop fuel env ?cl rootPath [] [] 1 =
        Some (map (\<lambda>q. ListDirectory ?cl rootPath q 100 True) [1..<Suc (Suc kk)], Inr fs)"
      using listed(1) evs by simp
    have "1 \<le> Suc kk \<and>
        listLoop fuel env ?cl rootPath [] [] 1 =
          Some (map (\<lambda>q. ListDirectory ?cl rootPath q 100 True) [1..<Suc (Suc kk)], Inr fs) \<and>
        filter isListDirectory (newCalls w w1) =
          map (\<lambda>q. ListDirectory ?cl rootPath q 100 True) [1..<Suc (Suc kk)] \<and>
        fs = dirsOfPages env ?cl rootPath 1 (Suc kk) \<and>
        (\<exists>resp. listDirectory env ?cl rootPath (Suc kk) 100 True = Inr resp \<and>
           total (data resp) \<le> int (length fs)) \<and>
        loadedIndex env taskId c w = Inr m \<and>
        last (calls w1) = CompleteScanTask taskId ?res \<and>
        res_total ?res = length fs \<and>
        res_existing ?res =
          length (filter (\<lambda>f. \<not> c \<and> has (folderNameToKey m) (item_name f)) fs) \<and>
        res_new ?res =
          length (filter (\<lambda>f. (c \<or> \<not> has (folderNameToKey m) (item_name f)) \<and>
                           \<not> resolutionFails env k p (item_name f)) fs) \<and>
        res_errors ?res =
          length (filter (\<lambda>f. (c \<or> \<not> has (folderNameToKey m) (item_name f)) \<and>
                           resolutionFails env k p (item_name f)) fs) \<and>
        res_total ?res = res_existing ?res + res_new ?res + res_errors ?res"
      using ll pages evs fs tot listed(7) last counts sum by simp
    then show ?thesis by blast
  qed
next
  show "(newCount (processFolder env taskId k p c names n i folder st),
          existingCount (processFolder env taskId k p c names n i folder st),
          errorCount (processFolder env taskId k p c names n i folder st)) =
         (if \<not> c \<and> has names (item_name folder)
          then (newCount st, existingCount st + 1, errorCount st)
          else if resolutionFails env k p (item_name folder)
          then (newCount st, existingCount st, errorCount st + 1)
          else (newCount st + 1, existingCount st, errorCount st))"
    by (rule processFolder_counters)
qed

lemma sample_listing:
  "listLoop 1 (sampleEnv twoFolders) c r [] [] 1 =
     Some ([ListDirectory c r 1 100 True], Inr twoFolders)"
  by (simp add: sampleEnv_def pagedLister_def twoFolders_def dir_def)

lemma sample_loaded:
  "loadedIndex (sampleEnv items) taskId False sampleWorld = Inr sampleIndex"
  by (simp add: loadedIndex_def loadMetaInfo_def indexOf_def wellFormed_def logCall_def Let_def
      sampleEnv_def sampleWorld_def sampleIndex_def metainfoKey_def)

lemma sample_scan_completes:
  "map_option fst (performScan (sampleEnv twoFolders) 1 ''t'' ''u'' ''/'' ''key'' None ''n'' ''p''
      False sampleWorld) = Some (Inr ())"
  unfolding performScan_unfold sample_listing sample_loaded Let_def
  by (simp add: persist_def Let_def sampleEnv_def sampleConfig_def logCall_def
      invalidateMetaInfoCache_def setCachedMetaInfo_def)

text \<open>A stored text that parses to a value without folders: the listing succeeds, and the
  scan fails with a \<^verbatim>\<open>TypeError\<close> before the loop.\<close>

lemma malformed_index_fails_scan:
  "map_option (\<lambda>(r, w1). (r, newCalls (sampleWorld\<lparr>store := [metainfoKey \<mapsto> ''{}'']\<rparr>) w1))
     (performScan (sampleEnv twoFolders) 1 ''t'' ''u'' ''/'' ''key'' None ''n'' ''p'' False
        (sampleWorld\<lparr>store := [metainfoKey \<mapsto> ''{}'']\<rparr>)) =
   Some (Inl (Thrown ''TypeError''),
         [UpdateScanTaskProgress ''t'' 0 0 None, GetGlobalValue metainfoKey,
          InvalidateMetaInfoCache ''/'',
          ListDirectory \<lparr>url = ''u'', username = ''n'', password = ''p''\<rparr> ''/'' 1 100 True,
          UpdateScanTaskProgress ''t'' 0 2 None, FailScanTask ''t'' (Thrown ''TypeError'')])"
  unfolding performScan_unfold sample_listing Let_def
  by (simp add: loadedIndex_def loadMetaInfo_def indexOf_def logCall_def Let_def sampleEnv_def
      sampleWorld_def metainfoKey_def prelude_def newCalls_def twoFolders_def)

theorem completed_scan_counts_witness:
  "\<exists>w1. performScan (sampleEnv twoFolders) 1 ''t'' ''u'' ''/'' ''key'' None ''n'' ''p''
           False sampleWorld = Some (Inr (), w1) \<and>
        filter isListDirectory (newCalls sampleWorld w1) =
          [ListDirectory \<lparr>url = ''u'', username = ''n'', password = ''p''\<rparr> ''/'' 1 100 True] \<and>
        last (calls w1) = CompleteScanTask ''t''
          \<lparr>res_total = 2, res_new = 1, res_existing = 1, res_errors = 0\<rparr>"
proof -
  let ?cl = "\<lparr>url = ''u'', username = ''n'', password = ''p''\<rparr>"
  obtain w1 where run: "performScan (sampleEnv twoFolders) 1 ''t'' ''u'' ''/'' ''key'' None ''n''
      ''p'' False sampleWorld = Some (Inr (), w1)"
    using sample_scan_completes by auto
  from completed_scan_counts [OF run, THEN conjunct1] obtain pages fs m res where a:
    "listLoop 1 (sampleEnv twoFolders) ?cl ''/'' [] [] 1 =
       Some (map (\<lambda>q. ListDirectory ?cl ''/'' q 100 True) [1..<Suc pages], Inr fs)"
    "filter isListDirectory (newCalls sampleWorld w1) =
       map (\<lambda>q. ListDirectory ?cl ''/'' q 100 True) [1..<Suc pages]"
    "loadedIndex (sampleEnv twoFolders) ''t'' False sampleWorld = Inr m"
    "last (calls w1) = CompleteScanTask ''t'' res"
    "res_total res = length fs"
    "res_existing res =
       length (filter (\<lambda>f. \<not> False \<and> has (folderNameToKey m) (item_name f)) fs)"
    "res_new res =
       length (filter (\<lambda>f. (False \<or> \<not> has (folderNameToKey m) (item_name f)) \<and>
                        \<not> resolutionFails (sampleEnv twoFolders) ''key'' None (item_name f)) fs)"
    "res_errors res =
       length (filter (\<lambda>f. (False \<or> \<not> has (folderNameToKey m) (item_name f)) \<and>
                        resolutionFails (sampleEnv twoFolders) ''key'' None (item_name f)) fs)"
    by blast
  have pages: "map (\<lambda>q. ListDirectory ?cl ''/'' q 100 True) [1..<Suc pages] =
      [ListDirectory ?cl ''/'' 1 100 True]"
    and fs: "fs = twoFolders"
    using a(1) unfolding sample_listing by simp_all
  have m: "m = sampleIndex" using a(3) unfolding sample_loaded by simp
  have "res_total res = 2" "res_existing res = 1" "res_new res = 1" "res_errors res = 0"
    unfolding a(5,6,7,8) fs m
    by (simp_all add: twoFolders_def dir_def has_def folderNameToKey_def sampleIndex_def
        placeholder_def resolutionFails_def sampleEnv_def sampleParse_def sampleSearch_def
        sampleShow_def truthy_num_def)
  then have "res = \<lparr>res_total = 2, res_new = 1, res_existing = 1, res_errors = 0\<rparr>"
    by (cases res) simp
  then show ?thesis using run a(2,4) pages by simp
qed

text \<open>
  C6 (as amended). When the listing succeeds with the folders \<open>fs\<close> and the loaded value
  is an index, the scan returns, and its calls are: the calls before the listing, the
  listing pages, the report of the number of folders, and then, folder by folder in order,
  the progress report for the folder (with its 1-based index, the number of all remote
  folders, existing and new, and its name) followed at once by the calls that resolve
  this folder (none for a folder that is skipped); the calls after the loop are neither
  progress reports nor resolving calls. So the report for a folder comes before the
  folder is handled, and no report follows the last folder.
\<close>

theorem progress_reported_before_each_folder:
  assumes listed: "listLoop fuel env \<lparr>url = u, username = un, password = pw\<rparr> rootPath [] [] 1 = Some (evs, Inr fs)"
    and index: "loadedIndex env taskId c w = Inr m"
  shows "\<exists>r w1 post.
           performScan env fuel taskId u rootPath k p un pw c w = Some (r, w1) \<and>
           newCalls w w1 =
             prelude taskId rootPath c @ evs @
             [UpdateScanTaskProgress taskId 0 (length fs) None] @
             concat (map (\<lambda>(j, folder).
                         UpdateScanTaskProgress taskId (j + 1) (length fs)
                           (Some (item_name folder)) #
                         (if \<not> c \<and> has (folderNameToKey m) (item_name folder) then []
                          else resolvingCalls env k p (item_name folder)))
                       (enumerate 0 fs)) @
             post \<and>
           (\<forall>folder\<in>set fs. \<forall>e\<in>set (resolvingCalls env k p (item_name folder)). isResolving e) \<and>
           (\<forall>e\<in>set post. \<not> isProgress e \<and> \<not> isResolving e)"
proof -
  let ?cs = "calls w @ prelude taskId rootPath c @ evs @
               [UpdateScanTaskProgress taskId 0 (length fs) None]"
  let ?st = "scanLoop env taskId k p c (folderNameToKey m) (length fs) 0 fs
               (initialScanState m ?cs)"
  let ?blocks = "concat (map (\<lambda>(j, folder).
                         UpdateScanTaskProgress taskId (j + 1) (length fs)
                           (Some (item_name folder)) #
                         (if \<not> c \<and> has (folderNameToKey m) (item_name folder) then []
                          else resolvingCalls env k p (item_name folder)))
                       (enumerate 0 fs))"
  have lc: "lcalls ?st = ?cs @ ?blocks"
    by (simp add: scanLoop_log_exact initialScanState_def)
  let ?w3 = "w\<lparr>cache := (cache w)(rootPath := None), calls := ?cs @ ?blocks\<rparr>"
  let ?out = "persist env taskId rootPath (length fs) ?st ?w3"
  have run: "performScan env fuel taskId u rootPath k p un pw c w = Some (fst ?out, snd ?out)"
    using lc listed index by (simp add: performScan_unfold Let_def)
  obtain post where post: "calls (snd ?out) = calls ?w3 @ post"
    "\<forall>e\<in>set post. \<not> isListDirectory e \<and> \<not> isProgress e \<and> \<not> isResolving e"
    using persist_calls by blast
  have "calls (snd ?out) =
      calls w @ (prelude taskId rootPath c @ evs @
        [UpdateScanTaskProgress taskId 0 (length fs) None] @ ?blocks @ post)"
    using post(1) by simp
  then have new: "newCalls w (snd ?out) =
      prelude taskId rootPath c @ evs @
        [UpdateScanTaskProgress taskId 0 (length fs) None] @ ?blocks @ post"
    by (rule newCalls_append)
  have "\<forall>folder\<in>set fs. \<forall>e\<in>set (resolvingCalls env k p (item_name folder)). isResolving e"
    using resolvingCalls_isResolving by blast
  then show ?thesis using run new post(2) by blast
qed

lemma sample_resolving:
  "resolvingCalls (sampleEnv items) ''key'' None ''Show A S02'' =
     [SearchTMDB ''key'' ''Show A'' None None, GetTVSeasonDetails ''key'' 42 2 None,
      SetTimeout 300]"
  by (simp add: resolvingCalls_def sample_defs folder_defs Let_def)

theorem progress_reported_before_each_folder_witness:
  "listLoop 1 (sampleEnv twoFolders) \<lparr>url = ''u'', username = ''n'', password = ''p''\<rparr> ''/'' [] [] 1 =
     Some ([ListDirectory \<lparr>url = ''u'', username = ''n'', password = ''p''\<rparr> ''/'' 1 100 True], Inr twoFolders) \<and>
   loadedIndex (sampleEnv twoFolders) ''t'' False sampleWorld = Inr sampleIndex \<and>
   (\<exists>r w1 post.
      performScan (sampleEnv twoFolders) 1 ''t'' ''u'' ''/'' ''key'' None ''n'' ''p''
        False sampleWorld = Some (r, w1) \<and>
      newCalls sampleWorld w1 =
        [UpdateScanTaskProgress ''t'' 0 0 None, GetGlobalValue metainfoKey,
         InvalidateMetaInfoCache ''/'',
         ListDirectory \<lparr>url = ''u'', username = ''n'', password = ''p''\<rparr> ''/'' 1 100 True,
         UpdateScanTaskProgress ''t'' 0 2 None,
         UpdateScanTaskProgress ''t'' 1 2 (Some ''Movie B''),
         UpdateScanTaskProgress ''t'' 2 2 (Some ''Show A S02''),
         SearchTMDB ''key'' ''Show A'' None None, GetTVSeasonDetails ''key'' 42 2 None,
         SetTimeout 300] @ post \<and>
      filter isProgress post = [])"
proof -
  from progress_reported_before_each_folder [OF sample_listing sample_loaded,
      where u = "''u''" and un = "''n''" and pw = "''p''" and rootPath = "''/''"
        and k = "''key''" and p = None]
  obtain r w1 post where a:
    "performScan (sampleEnv twoFolders) 1 ''t'' ''u'' ''/'' ''key'' None ''n'' ''p''
        False sampleWorld = Some (r, w1)"
    "newCalls sampleWorld w1 =
       prelude ''t'' ''/'' False @ [ListDirectory \<lparr>url = ''u'', username = ''n'', password = ''p''\<rparr> ''/'' 1 100 True] @
       [UpdateScanTaskProgress ''t'' 0 (length twoFolders) None] @
       concat (map (\<lambda>(j, folder).
                   UpdateScanTaskProgress ''t'' (j + 1) (length twoFolders)
                     (Some (item_name folder)) #
                   (if \<not> False \<and> has (folderNameToKey sampleIndex) (item_name folder) then []
                    else resolvingCalls (sampleEnv twoFolders) ''key'' None (item_name folder)))
                 (enumerate 0 twoFolders)) @
       post"
    "\<forall>e\<in>set post. \<not> isProgress e \<and> \<not> isResolving e"
    by blast
  have "newCalls sampleWorld w1 =
        [UpdateScanTaskProgress ''t'' 0 0 None, GetGlobalValue metainfoKey,
         InvalidateMetaInfoCache ''/'',
         ListDirectory \<lparr>url = ''u'', username = ''n'', password = ''p''\<rparr> ''/'' 1 100 True,
         UpdateScanTaskProgress ''t'' 0 2 None,
         UpdateScanTaskProgress ''t'' 1 2 (Some ''Movie B''),
         UpdateScanTaskProgress ''t'' 2 2 (Some ''Show A S02''),
         SearchTMDB ''key'' ''Show A'' None None, GetTVSeasonDetails ''key'' 42 2 None,
         SetTimeout 300] @ post"
    unfolding a(2)
    by (simp add: prelude_def twoFolders_def dir_def has_def folderNameToKey_def sampleIndex_def
        placeholder_def sample_resolving)
  moreover have "filter isProgress post = []"
    by (rule filter_none) (use a(3) in blast)
  ultimately show ?thesis using a(1) sample_listing sample_loaded by blast
qed

lemmas scan_defs = loadMetaInfo_def logCall_def invalidateMetaInfoCache_def
  setCachedMetaInfo_def failScan_def persist_def folderNameToKey_def prelude_def

text \<open>
  C6, counterexample to the claim as stated: of the two remote folders one is in the index
  and one is new. Each report passes the total 2, not the number 1 of new folders; the
  report for the new folder precedes its search, and no report follows its delay. The
  first list holds the progress reports and the resolving calls of the scan, in order.
\<close>

theorem progress_reported_first_with_all_folders:
  "map_option (filter isScanCall \<circ> calls \<circ> snd)
     (performScan (sampleEnv twoFolders) 1 ''t'' ''u'' ''/'' ''key'' None ''n'' ''p''
        False sampleWorld) =
     Some [UpdateScanTaskProgress ''t'' 0 0 None, UpdateScanTaskProgress ''t'' 0 2 None,
           UpdateScanTaskProgress ''t'' 1 2 (Some ''Movie B''),
           UpdateScanTaskProgress ''t'' 2 2 (Some ''Show A S02''),
           SearchTMDB ''key'' ''Show A'' None None, GetTVSeasonDetails ''key'' 42 2 None,
           SetTimeout 300] \<and>
   map_option (last \<circ> calls \<circ> snd)
     (performScan (sampleEnv twoFolders) 1 ''t'' ''u'' ''/'' ''key'' None ''n'' ''p''
        False sampleWorld) =
     Some (CompleteScanTask ''t''
             \<lparr>res_total = 2, res_new = 1, res_existing = 1, res_errors = 0\<rparr>)"
  unfolding performScan_unfold sample_listing sample_loaded Let_def
  by (simp add: sample_defs twoFolders_def scan_defs folder_defs Let_def isScanCall_def)

subsection \<open>Termination of the listing loop\<close>

text \<open>A root that holds one file and no directory: the lister reports the total 1, and
  the loop, which counts directories only, never reaches it.\<close>

lemma listLoop_one_file:
  "listLoop fuel (sampleEnv [plainFile nm]) c r cs [] p = None"
proof (induction fuel arbitrary: cs p)
  case 0
  then show ?case by simp
next
  case (Suc fuel)
  have "filter is_dir (take 100 (drop ((p - 1) * 100) [plainFile nm])) = []"
    by (cases "(p - 1) * 100") (simp_all add: plainFile_def)
  then show ?case
    using Suc.IH by (simp add: sampleEnv_def pagedLister_def Let_def)
qed

text \<open>
  C8. At a root that holds a file, the listing loop does not leave, whatever the fuel: the
  claim that the listing ends for every lister with a fixed total fails there.
\<close>

theorem listing_with_a_file_never_ends:
  "listLoop fuel (sampleEnv [plainFile ''notes.txt''])
     \<lparr>url = ''u'', username = ''n'', password = ''p''\<rparr> ''/'' [] [] 1 = None \<and>
   performScan (sampleEnv [plainFile ''notes.txt'']) fuel ''t'' ''u'' ''/'' ''key'' None ''n'' ''p''
     False sampleWorld = None"
  by (simp add: performScan_unfold listLoop_one_file)

text \<open>When every item of the lister is a directory, the loop leaves with all of them
  after the last page.\<close>

lemma listLoop_all_dirs:
  assumes lister: "listDirectory env = pagedLister items"
    and dirs: "\<forall>x\<in>set items. is_dir x"
    and acc: "acc = take (j * 100) items"
    and fuel: "(length items - j * 100) div 100 < fuel"
  shows "\<exists>cs1. listLoop fuel env c r cs acc (j + 1) = Some (cs1, Inr items)"
  using acc fuel
proof (induction fuel arbitrary: cs acc j)
  case 0
  then show ?case by simp
next
  case (Suc fuel)
  let ?page = "take 100 (drop (j * 100) items)"
  let ?resp = "\<lparr>code = 200, data = \<lparr>total = int (length items), content = ?page\<rparr>\<rparr>"
  have resp: "listDirectory env c r (j + 1) 100 True = Inr ?resp"
    by (simp add: lister pagedLister_def)
  have "filter is_dir ?page = ?page"
    using dirs by (metis filter_True in_set_dropD in_set_takeD)
  then have f: "filter is_dir (content (data ?resp)) = ?page"
    by simp
  have step: "listLoop (Suc fuel) env c r cs acc (j + 1) =
     (if int (length items) \<le> int (length (acc @ ?page))
      then Some (cs @ [ListDirectory c r (j + 1) 100 True], Inr (acc @ ?page))
      else listLoop fuel env c r (cs @ [ListDirectory c r (j + 1) 100 True]) (acc @ ?page)
             (j + 1 + 1))"
    using listLoop_step [OF resp _ f, of fuel cs acc] by simp
  have "acc @ ?page = take (j * 100 + 100) items"
    unfolding Suc.prems(1) by (simp only: take_add)
  moreover have "j * 100 + 100 = Suc j * 100" by simp
  ultimately have acc1: "acc @ ?page = take (Suc j * 100) items" by (simp only:)
  show ?case
  proof (cases "length items \<le> Suc j * 100")
    case True
    then have e: "acc @ ?page = items" using acc1 by simp
    show ?thesis unfolding step e by simp
  next
    case False
    then have lt: "\<not> int (length items) \<le> int (length (acc @ ?page))"
      unfolding acc1 by simp
    have "(length items - Suc j * 100) div 100 < fuel"
    proof -
      define d where "d = length items - Suc j * 100"
      have "length items - j * 100 = d + 100"
        using False by (simp add: d_def)
      then have "(length items - j * 100) div 100 = (d + 100) div 100"
        by (simp only:)
      also have "\<dots> = Suc (d div 100)" by simp
      finally have "Suc (d div 100) < Suc fuel" using Suc.prems(2) by simp
      then show ?thesis by (simp add: d_def)
    qed
    from Suc.IH [OF acc1 this] obtain cs1 where
      "listLoop fuel env c r (cs @ [ListDirectory c r (j + 1) 100 True]) (acc @ ?page) (Suc j + 1) =
         Some (cs1, Inr items)"
      by blast
    then show ?thesis unfolding step using lt by simp
  qed
qed

lemma listing_of_directories_ends:
  assumes "listDirectory env = pagedLister items" "\<forall>x\<in>set items. is_dir x"
  shows "\<exists>cs1. listLoop (Suc (length items div 100)) env c r cs [] 1 = Some (cs1, Inr items)"
  using listLoop_all_dirs [OF assms, of "[]" 0 "Suc (length items div 100)" c r cs] by simp

end
